theory Spec2Isabelle
  imports Main "HOL-Library.Sublist" "HOL-Library.AList"
begin

section \<open>Strings and paths\<close>

text \<open>
  Python \<open>str\<close> and \<open>bytes\<close> values are both modelled as \<open>string\<close> (a list of
  8-bit characters). Paths are kept as the strings the program builds; the file
  system resolves a path string to its list of name components.
\<close>

type_synonym bytes = string

text \<open>\<open>s.split(c)\<close> for a one-character separator: the list of segments, empty ones included.\<close>

fun split_sep :: "char \<Rightarrow> string \<Rightarrow> string list" where
  "split_sep c [] = [[]]"
| "split_sep c (x # xs) =
     (if x = c then [] # split_sep c xs
      else (case split_sep c xs of [] \<Rightarrow> [[x]] | w # ws \<Rightarrow> (x # w) # ws))"

text \<open>\<open>sep.join(items)\<close>.\<close>

fun sep_join :: "string \<Rightarrow> string list \<Rightarrow> string" where
  "sep_join sep [] = []"
| "sep_join sep [x] = x"
| "sep_join sep (x # y # ys) = x @ sep @ sep_join sep (y # ys)"

text \<open>\<open>os.path.join(a, b)\<close> of posixpath, two arguments.\<close>

definition path_join :: "string \<Rightarrow> string \<Rightarrow> string" where
  "path_join a b =
     (if b \<noteq> [] \<and> hd b = CHR ''/'' then b
      else if a = [] \<or> last a = CHR ''/'' then a @ b
      else a @ ''/'' @ b)"

text \<open>\<open>s.rstrip(c)\<close> for a single character.\<close>

definition rstrip_chr :: "char \<Rightarrow> string \<Rightarrow> string" where
  "rstrip_chr c s = rev (dropWhile (\<lambda>x. x = c) (rev s))"

text \<open>The part of \<open>p\<close> up to and including its last slash: \<open>p[:p.rfind('/') + 1]\<close>.\<close>

definition head_to_slash :: "string \<Rightarrow> string" where
  "head_to_slash p = rev (dropWhile (\<lambda>x. x \<noteq> CHR ''/'') (rev p))"

text \<open>\<open>os.path.dirname(p)\<close> of posixpath.\<close>

definition dirname :: "string \<Rightarrow> string" where
  "dirname p =
     (let head = head_to_slash p
      in if head \<noteq> [] \<and> head \<noteq> replicate (length head) CHR ''/''
         then rstrip_chr CHR ''/'' head else head)"

text \<open>\<open>os.path.basename(p)\<close> of posixpath: \<open>p[p.rfind('/') + 1:]\<close>.\<close>

definition basename :: "string \<Rightarrow> string" where
  "basename p = rev (takeWhile (\<lambda>x. x \<noteq> CHR ''/'') (rev p))"

text \<open>ASCII \<open>str.lower()\<close>.\<close>

definition chr_lower :: "char \<Rightarrow> char" where
  "chr_lower c =
     (if (65::nat) \<le> of_char c \<and> of_char c \<le> (90::nat)
      then char_of (of_char c + (32::nat)) else c)"

definition str_lower :: "string \<Rightarrow> string" where
  "str_lower s = map chr_lower s"

text \<open>\<open>s.startswith(p)\<close> is \<open>prefix p s\<close>; \<open>s.endswith(p)\<close>:\<close>

definition endswith :: "string \<Rightarrow> string \<Rightarrow> bool" where
  "endswith s p = prefix (rev p) (rev s)"

section \<open>Errors\<close>

datatype error =
    FileNotFoundError
  | FileExistsError
  | NotADirectoryError
  | IsADirectoryError
  | SameFileError
  | AttributeError
  | URLError
  | KeyError string
  | ValueError string

section \<open>The long-path-safe archive class\<close>

text \<open>
  A class is a table of its methods. \<open>zipfile.ZipFile\<close> is a library class, so its
  methods are parameters; \<open>ZipFileLongPaths\<close> is the base table with
  \<open>_extract_member\<close> overridden, as the subclass declares.
  \<open>platform.system()\<close> and \<open>os.path.abspath\<close> are parameters as well.
\<close>

record ('r, 'w) zip_methods =
  extract_member :: "string \<Rightarrow> string \<Rightarrow> string option \<Rightarrow> 'r"
  write_member :: 'w

definition is_windows :: "string \<Rightarrow> bool" where
  "is_windows platform_system = (str_lower platform_system = ''windows'')"

definition long_tpath :: "string \<Rightarrow> (string \<Rightarrow> string) \<Rightarrow> string \<Rightarrow> string" where
  "long_tpath platform_system abspath tpath =
     (if is_windows platform_system
      then (let t = abspath tpath
            in if prefix [CHR 0x5C, CHR 0x5C] t
               then [CHR 0x5C, CHR 0x5C, CHR ''?'', CHR 0x5C] @ ''UNC'' @ [CHR 0x5C] @ drop 2 t
               else [CHR 0x5C, CHR 0x5C, CHR ''?'', CHR 0x5C] @ t)
      else tpath)"

definition ZipFileLongPaths ::
  "string \<Rightarrow> (string \<Rightarrow> string) \<Rightarrow> ('r, 'w) zip_methods \<Rightarrow> ('r, 'w) zip_methods" where
  "ZipFileLongPaths platform_system abspath ZipFile =
     ZipFile\<lparr>extract_member := \<lambda>member tpath pwd.
        extract_member ZipFile member (long_tpath platform_system abspath tpath) pwd\<rparr>"

section \<open>The runtime environment initializer\<close>

text \<open>
  The process state touched by \<open>initialize_environment\<close>: \<open>sys.path\<close> and
  \<open>os.environ\<close>. \<open>get_downloaded_usd_root()\<close> (module \<open>utils\<close>),
  \<open>USD_ADDON_DIR\<close> and \<open>os.path.pathsep\<close> are parameters.
\<close>

record process =
  sys_path :: "string list"
  environ :: "string \<rightharpoonup> string"

text \<open>An f-string field \<open>{os.getenv(k)}\<close>: an unset variable renders as \<open>None\<close>.\<close>

definition fmt_getenv :: "process \<Rightarrow> string \<Rightarrow> string" where
  "fmt_getenv p k = (case environ p k of None \<Rightarrow> ''None'' | Some v \<Rightarrow> v)"

definition setenv :: "string \<Rightarrow> string \<Rightarrow> process \<Rightarrow> process" where
  "setenv k v p = p\<lparr>environ := (environ p)(k \<mapsto> v)\<rparr>"

definition initialize_environment :: "string \<Rightarrow> string \<Rightarrow> string \<Rightarrow> process \<Rightarrow> process" where
  "initialize_environment usd_root USD_ADDON_DIR pathsep p0 =
     (let p1 = p0\<lparr>sys_path := sys_path p0 @ [path_join (path_join usd_root ''lib'') ''python'']\<rparr>;
          p2 = setenv ''PXR_PLUGINPATH_NAME'' USD_ADDON_DIR p1;
          p3 = setenv ''USD_ASSET_RESOLVER'' '''' p2;
          p4 = setenv ''TF_DEBUG'' ''1'' p3;
          p5 = setenv ''PYTHONPATH'' (path_join (path_join usd_root ''lib'') ''python'') p4;
          p6 = setenv ''PATH'' (fmt_getenv p5 ''PATH'' @ pathsep @ path_join usd_root ''bin'') p5;
          p7 = setenv ''AYONLOGGERLOGLVL'' ''WARN'' p6;
          p8 = setenv ''AYONLOGGERSFILELOGGING'' ''1'' p7
      in setenv ''AYONLOGGERSFILEPOS'' ''.log'' p8)"

definition env_vars_set :: "string set" where
  "env_vars_set = {''PXR_PLUGINPATH_NAME'', ''USD_ASSET_RESOLVER'', ''TF_DEBUG'', ''PYTHONPATH'',
     ''PATH'', ''AYONLOGGERLOGLVL'', ''AYONLOGGERSFILELOGGING'', ''AYONLOGGERSFILEPOS''}"

section \<open>The file system\<close>

text \<open>
  The file system is a finite table from absolute component paths to entries. The
  root (the empty component list) is always a directory. A path string is resolved
  by splitting it at the slashes and dropping empty and \<open>.\<close> components; relative
  paths are resolved against the root, and there are no symbolic links.
\<close>

datatype entry = File bytes | Dir

type_synonym path = "string list"

type_synonym filesystem = "(path \<times> entry) list"

definition valid_name :: "string \<Rightarrow> bool" where
  "valid_name n = (n \<noteq> [] \<and> n \<noteq> ''.'' \<and> n \<noteq> ''..'' \<and> CHR ''/'' \<notin> set n)"

definition comps :: "string \<Rightarrow> path" where
  "comps p = filter (\<lambda>n. n \<noteq> [] \<and> n \<noteq> ''.'') (split_sep CHR ''/'' p)"

definition stat_c :: "filesystem \<Rightarrow> path \<Rightarrow> entry option" where
  "stat_c fs c = (if c = [] then Some Dir else map_of fs c)"

text \<open>The empty path string names nothing (\<open>ENOENT\<close>).\<close>

definition stat :: "filesystem \<Rightarrow> string \<Rightarrow> entry option" where
  "stat fs p = (if p = [] then None else stat_c fs (comps p))"

definition path_exists :: "filesystem \<Rightarrow> string \<Rightarrow> bool" where
  "path_exists fs p = (stat fs p \<noteq> None)"

definition isdir :: "filesystem \<Rightarrow> string \<Rightarrow> bool" where
  "isdir fs p = (stat fs p = Some Dir)"

definition isfile :: "filesystem \<Rightarrow> string \<Rightarrow> bool" where
  "isfile fs p = (case stat fs p of Some (File b) \<Rightarrow> True | _ \<Rightarrow> False)"

text \<open>\<open>os.listdir\<close>: the names directly below a directory, each once, never \<open>.\<close> or \<open>..\<close>.\<close>

definition listdir :: "filesystem \<Rightarrow> string \<Rightarrow> error + string list" where
  "listdir fs p =
     (case stat fs p of
        None \<Rightarrow> Inl FileNotFoundError
      | Some (File b) \<Rightarrow> Inl NotADirectoryError
      | Some Dir \<Rightarrow>
          Inr (remdups (map last
            (filter (\<lambda>k. k \<noteq> [] \<and> butlast k = comps p \<and> valid_name (last k)) (map fst fs)))))"


text \<open>Reading a file opened for reading.\<close>

definition read_file :: "filesystem \<Rightarrow> string \<Rightarrow> error + bytes" where
  "read_file fs p =
     (case stat fs p of
        Some (File b) \<Rightarrow> Inr b
      | Some Dir \<Rightarrow> Inl IsADirectoryError
      | None \<Rightarrow>
          (if p \<noteq> [] \<and> (case stat_c fs (butlast (comps p)) of Some (File b) \<Rightarrow> True | _ \<Rightarrow> False)
           then Inl NotADirectoryError else Inl FileNotFoundError))"

subsection \<open>The world: the file system and the requests made to the network\<close>

record world =
  files :: filesystem
  requested :: "string list"

type_synonym 'a result = "(error + 'a) \<times> world"

definition ret :: "'a \<Rightarrow> world \<Rightarrow> 'a result" where
  "ret x w = (Inr x, w)"

definition raise :: "error \<Rightarrow> world \<Rightarrow> 'a result" where
  "raise e w = (Inl e, w)"

text \<open>Sequencing: an exception of the first step ends the run in the world it left.\<close>

definition andthen :: "(world \<Rightarrow> 'a result) \<Rightarrow> ('a \<Rightarrow> world \<Rightarrow> 'b result) \<Rightarrow> world \<Rightarrow> 'b result" where
  "andthen m f w = (case m w of (Inl e, w') \<Rightarrow> (Inl e, w') | (Inr x, w') \<Rightarrow> f x w')"

text \<open>Why no entry can be created at \<open>c\<close>: its parent is missing or is a file.\<close>

definition parent_error :: "filesystem \<Rightarrow> path \<Rightarrow> error option" where
  "parent_error fs c =
     (case stat_c fs (butlast c) of
        None \<Rightarrow> Some FileNotFoundError
      | Some (File b) \<Rightarrow> Some NotADirectoryError
      | Some Dir \<Rightarrow> None)"

text \<open>\<open>os.mkdir\<close> on a component path.\<close>

definition mkdir_c :: "path \<Rightarrow> world \<Rightarrow> unit result" where
  "mkdir_c c w =
     (if stat_c (files w) c \<noteq> None then raise FileExistsError w
      else (case parent_error (files w) c of
              Some e \<Rightarrow> raise e w
            | None \<Rightarrow> ret () (w\<lparr>files := AList.update c Dir (files w)\<rparr>)))"

definition os_mkdir :: "string \<Rightarrow> world \<Rightarrow> unit result" where
  "os_mkdir p w = (if p = [] then raise FileNotFoundError w else mkdir_c (comps p) w)"

text \<open>
  \<open>os.makedirs(name)\<close> with \<open>exist_ok=False\<close>, on the reversed component path:
  a missing parent is created first (a \<open>FileExistsError\<close> from that is passed
  over), then the directory itself.
\<close>

fun makedirs_rev :: "string list \<Rightarrow> world \<Rightarrow> unit result" where
  "makedirs_rev [] w = raise FileExistsError w"
| "makedirs_rev (n # rparent) w =
     (case (if rparent \<noteq> [] \<and> stat_c (files w) (rev rparent) = None
            then makedirs_rev rparent w else ret () w) of
        (Inl e, w1) \<Rightarrow>
          if e = FileExistsError then mkdir_c (rev (n # rparent)) w1 else (Inl e, w1)
      | (Inr u, w1) \<Rightarrow> mkdir_c (rev (n # rparent)) w1)"

definition os_makedirs :: "string \<Rightarrow> world \<Rightarrow> unit result" where
  "os_makedirs p w = (if p = [] then raise FileNotFoundError w else makedirs_rev (rev (comps p)) w)"

text \<open>\<open>Path.mkdir(parents=False, exist_ok=...)\<close>.\<close>

definition mkdir_once :: "bool \<Rightarrow> path \<Rightarrow> world \<Rightarrow> unit result" where
  "mkdir_once exist_ok c w =
     (case mkdir_c c w of
        (Inr u, w1) \<Rightarrow> (Inr u, w1)
      | (Inl e, w1) \<Rightarrow>
          if e = FileNotFoundError then (Inl e, w1)
          else if \<not> exist_ok \<or> stat_c (files w1) c \<noteq> Some Dir then (Inl e, w1)
          else ret () w1)"

text \<open>\<open>Path.mkdir(parents=True, exist_ok=...)\<close>, on the reversed component path.\<close>

fun mkdir_parents_rev :: "bool \<Rightarrow> string list \<Rightarrow> world \<Rightarrow> unit result" where
  "mkdir_parents_rev exist_ok [] w = mkdir_once exist_ok [] w"
| "mkdir_parents_rev exist_ok (n # rparent) w =
     (case mkdir_c (rev (n # rparent)) w of
        (Inr u, w1) \<Rightarrow> (Inr u, w1)
      | (Inl e, w1) \<Rightarrow>
          if e = FileNotFoundError
          then (case mkdir_parents_rev True rparent w1 of
                  (Inl e2, w2) \<Rightarrow> (Inl e2, w2)
                | (Inr u, w2) \<Rightarrow> mkdir_once exist_ok (rev (n # rparent)) w2)
          else if \<not> exist_ok \<or> stat_c (files w1) (rev (n # rparent)) \<noteq> Some Dir then (Inl e, w1)
          else ret () w1)"

definition path_mkdir :: "bool \<Rightarrow> bool \<Rightarrow> string \<Rightarrow> world \<Rightarrow> unit result" where
  "path_mkdir parents exist_ok p w =
     (if parents then mkdir_parents_rev exist_ok (rev (comps p)) w
      else mkdir_once exist_ok (comps p) w)"

text \<open>\<open>open(p, "w")\<close>, writing \<open>content\<close> and closing.\<close>

definition write_file :: "string \<Rightarrow> bytes \<Rightarrow> world \<Rightarrow> unit result" where
  "write_file p content w =
     (if p = [] then raise FileNotFoundError w
      else if stat_c (files w) (comps p) = Some Dir then raise IsADirectoryError w
      else (case parent_error (files w) (comps p) of
              Some e \<Rightarrow> raise e w
            | None \<Rightarrow> ret () (w\<lparr>files := AList.update (comps p) (File content) (files w)\<rparr>)))"

definition os_remove :: "string \<Rightarrow> world \<Rightarrow> unit result" where
  "os_remove p w =
     (case stat (files w) p of
        None \<Rightarrow> raise FileNotFoundError w
      | Some Dir \<Rightarrow> raise IsADirectoryError w
      | Some (File b) \<Rightarrow> ret () (w\<lparr>files := filter (\<lambda>kv. fst kv \<noteq> comps p) (files w)\<rparr>))"

text \<open>\<open>shutil.rmtree\<close>: the directory and everything below it.\<close>

definition shutil_rmtree :: "string \<Rightarrow> world \<Rightarrow> unit result" where
  "shutil_rmtree p w =
     (case stat (files w) p of
        None \<Rightarrow> raise FileNotFoundError w
      | Some (File b) \<Rightarrow> raise NotADirectoryError w
      | Some Dir \<Rightarrow> ret () (w\<lparr>files := filter (\<lambda>kv. \<not> prefix (comps p) (fst kv)) (files w)\<rparr>))"

text \<open>\<open>shutil.copy\<close> and \<open>shutil.copy2\<close> (file metadata is not part of the model).\<close>

definition shutil_copy :: "string \<Rightarrow> string \<Rightarrow> world \<Rightarrow> unit result" where
  "shutil_copy src dst w =
     (let dst' = (if isdir (files w) dst then path_join dst (basename src) else dst)
      in if path_exists (files w) src \<and> path_exists (files w) dst' \<and> comps src = comps dst'
         then raise SameFileError w
         else (case read_file (files w) src of
                 Inl e \<Rightarrow> raise e w
               | Inr content \<Rightarrow> write_file dst' content w))"

subsection \<open>What the packager imports and \<open>src/\<close> does not define\<close>

text \<open>
  \<open>hashlib\<close>: \<open>getattr(hashlib, name)\<close>, \<open>None\<close> where the attribute is
  missing, otherwise the digest of a byte string in hexadecimal.
  \<open>url_content\<close>: the body a URL serves, \<open>None\<close> where the request fails.
  \<open>zip_container\<close>: the bytes of a zip archive with the given members.
  \<open>ADDON_NAME\<close>, \<open>ADDON_VERSION\<close>, \<open>ADDON_CLIENT_DIR\<close>: the attributes of the
  module \<open>package\<close>. \<open>script_abspath\<close>: \<open>os.path.abspath(__file__)\<close>.
\<close>

record externals =
  hashlib :: "string \<Rightarrow> (bytes \<Rightarrow> string) option"
  url_content :: "string \<Rightarrow> bytes option"
  zip_container :: "(string \<times> bytes) list \<Rightarrow> bytes"
  ADDON_NAME :: string
  ADDON_VERSION :: string
  ADDON_CLIENT_DIR :: string
  script_abspath :: string

text \<open>\<open>urllib.request.urlretrieve(url, filename)\<close>.\<close>

definition urlretrieve :: "externals \<Rightarrow> string \<Rightarrow> string \<Rightarrow> world \<Rightarrow> unit result" where
  "urlretrieve E src_url filename w =
     (let w1 = w\<lparr>requested := requested w @ [src_url]\<rparr>
      in case url_content E src_url of
           None \<Rightarrow> raise URLError w1
         | Some content \<Rightarrow> write_file filename content w1)"

section \<open>Checksums\<close>

text \<open>
  A \<open>hashlib\<close> object accumulates what \<open>update\<close> is given; \<open>hexdigest\<close> applies the
  algorithm to the accumulated bytes (the library's documented contract: repeated
  \<open>update\<close> calls equal one call on the concatenation).
\<close>

record hash_obj =
  algorithm :: "bytes \<Rightarrow> string"
  fed :: bytes

definition hash_update :: "hash_obj \<Rightarrow> bytes \<Rightarrow> hash_obj" where
  "hash_update h chunk = h\<lparr>fed := fed h @ chunk\<rparr>"

definition hexdigest :: "hash_obj \<Rightarrow> string" where
  "hexdigest h = algorithm h (fed h)"

text \<open>
  \<open>f.read(n)\<close> on a binary file whose unread rest is \<open>rest\<close>: \<open>n = -1\<close> reads to
  the end, \<open>n < -1\<close> raises \<open>ValueError\<close>, otherwise at most \<open>n\<close> bytes.
\<close>

definition file_read :: "int \<Rightarrow> bytes \<Rightarrow> error + bytes" where
  "file_read n rest =
     (if n < - 1 then Inl (ValueError ''read length must be non-negative or -1'')
      else if n = - 1 then Inr rest
      else Inr (take (nat n) rest))"

text \<open>The loop \<open>for chunk in iter(lambda: f.read(chunk_size), b"")\<close>.\<close>

function read_chunks :: "int \<Rightarrow> bytes \<Rightarrow> hash_obj \<Rightarrow> error + hash_obj" where
  "read_chunks chunk_size rest h =
     (case file_read chunk_size rest of
        Inl e \<Rightarrow> Inl e
      | Inr chunk \<Rightarrow>
          if chunk = [] then Inr h
          else read_chunks chunk_size (drop (length chunk) rest) (hash_update h chunk))"
  by pat_completeness auto
termination
  by (relation "measure (\<lambda>(n, rest, h). length rest)")
     (auto simp: file_read_def split: if_splits)

declare read_chunks.simps [simp del]

definition calculate_file_checksum ::
  "externals \<Rightarrow> filesystem \<Rightarrow> string \<Rightarrow> string \<Rightarrow> int \<Rightarrow> error + string" where
  "calculate_file_checksum E fs filepath hash_algorithm chunk_size =
     (case hashlib E hash_algorithm of
        None \<Rightarrow> Inl AttributeError
      | Some func \<Rightarrow>
          (case read_file fs filepath of
             Inl e \<Rightarrow> Inl e
           | Inr content \<Rightarrow>
               (case read_chunks chunk_size content \<lparr>algorithm = func, fed = []\<rparr> of
                  Inl e \<Rightarrow> Inl e
                | Inr hash_obj \<Rightarrow> Inr (hexdigest hash_obj))))"

subsection \<open>What the chunked loop computes\<close>

lemma read_chunks_positive:
  "0 < n \<Longrightarrow> read_chunks n rest h = Inr (h\<lparr>fed := fed h @ rest\<rparr>)"
proof (induction n rest h rule: read_chunks.induct)
  case (1 n rest h)
  show ?case
  proof (cases "take (nat n) rest = []")
    case True
    with 1(2) have "rest = []" by simp
    then show ?thesis using 1(2) by (subst read_chunks.simps) (simp add: file_read_def)
  next
    case False
    have fr: "file_read n rest = Inr (take (nat n) rest)" using 1(2) by (simp add: file_read_def)
    have "read_chunks n (drop (length (take (nat n) rest)) rest) (hash_update h (take (nat n) rest))
        = Inr ((hash_update h (take (nat n) rest))\<lparr>fed := fed (hash_update h (take (nat n) rest)) @ drop (length (take (nat n) rest)) rest\<rparr>)"
      using 1(1)[OF fr False 1(2)] .
    moreover have "take (nat n) rest @ drop (length (take (nat n) rest)) rest = rest"
      by (simp add: min_def)
    ultimately show ?thesis using False fr
      by (subst read_chunks.simps) (simp add: hash_update_def)
  qed
qed

lemma read_chunks_whole: "read_chunks (- 1) rest h = Inr (h\<lparr>fed := fed h @ rest\<rparr>)"
proof (cases "rest = []")
  case True
  then show ?thesis by (subst read_chunks.simps) (simp add: file_read_def)
next
  case False
  have "read_chunks (- 1) [] (hash_update h rest) = Inr (hash_update h rest)"
    by (subst read_chunks.simps) (simp add: file_read_def)
  with False show ?thesis
    by (subst read_chunks.simps) (simp add: file_read_def hash_update_def)
qed

lemma read_chunks_zero: "read_chunks 0 rest h = Inr h"
  by (subst read_chunks.simps) (simp add: file_read_def)

lemma read_chunks_invalid:
  "n < - 1 \<Longrightarrow> read_chunks n rest h = Inl (ValueError ''read length must be non-negative or -1'')"
  by (subst read_chunks.simps) (simp add: file_read_def)

lemma calculate_file_checksum_closed [code]:
  "calculate_file_checksum E fs filepath hash_algorithm chunk_size =
     (case hashlib E hash_algorithm of
        None \<Rightarrow> Inl AttributeError
      | Some func \<Rightarrow>
          (case read_file fs filepath of
             Inl e \<Rightarrow> Inl e
           | Inr content \<Rightarrow>
               if chunk_size < - 1 then Inl (ValueError ''read length must be non-negative or -1'')
               else if chunk_size = 0 then Inr (func [])
               else Inr (func content)))"
proof -
  consider "chunk_size < - 1" | "chunk_size = - 1" | "chunk_size = 0" | "0 < chunk_size" by linarith
  then show ?thesis
    by cases
      (auto simp: calculate_file_checksum_def read_chunks_invalid read_chunks_whole
         read_chunks_zero read_chunks_positive hexdigest_def split: option.splits sum.splits)
qed

text \<open>The default of the parameter \<open>chunk_size\<close>.\<close>

definition default_chunk_size :: int where
  "default_chunk_size = 10000"

section \<open>The filtered tree walker\<close>

text \<open>A compiled pattern is its \<open>search\<close> method, as a predicate on the searched string.\<close>

type_synonym regex = "string \<Rightarrow> bool"

text \<open>
  The patterns of the source. \<open>$\<close> matches at the end of the string and before a
  newline that ends it.
\<close>

definition IGNORE_DIR_PATTERNS :: "regex list" where
  "IGNORE_DIR_PATTERNS =
     [\<lambda>s. prefix ''.'' s,
      \<lambda>s. s = ''__pycache__'' \<or> s = ''__pycache__'' @ [CHR 0x0A]]"

definition IGNORE_FILE_PATTERNS :: "regex list" where
  "IGNORE_FILE_PATTERNS =
     [\<lambda>s. prefix ''.'' s,
      \<lambda>s. endswith s ''.pyc'' \<or> endswith s (''.pyc'' @ [CHR 0x0A])]"

definition value_match_regexes :: "string \<Rightarrow> regex list \<Rightarrow> bool" where
  "value_match_regexes v regexes = list_ex (\<lambda>regex. regex v) regexes"

type_synonym file_entry = "string \<times> string"

type_synonym queue_item = "string \<times> string list"

text \<open>The body of the \<open>for name in os.listdir(dirpath)\<close> loop.\<close>

definition scan_name ::
  "regex list \<Rightarrow> regex list \<Rightarrow> filesystem \<Rightarrow> string \<Rightarrow> string list \<Rightarrow>
   file_entry list \<times> queue_item list \<Rightarrow> string \<Rightarrow> file_entry list \<times> queue_item list" where
  "scan_name ignore_file_patterns ignore_dir_patterns fs dirpath parents acc name =
     (case acc of (output, hierarchy_queue) \<Rightarrow>
       (let path = path_join dirpath name
        in if isfile fs path
           then (if \<not> value_match_regexes name ignore_file_patterns
                 then (output @ [(path, sep_join ''/'' (parents @ [name]))], hierarchy_queue)
                 else (output, hierarchy_queue))
           else if \<not> value_match_regexes name ignore_dir_patterns
                then (output, hierarchy_queue @ [(path, parents @ [name])])
                else (output, hierarchy_queue)))"

text \<open>What one pass of the loop adds to the output and to the queue.\<close>

definition found_files ::
  "regex list \<Rightarrow> filesystem \<Rightarrow> string \<Rightarrow> string list \<Rightarrow> string list \<Rightarrow> file_entry list" where
  "found_files fp fs d ps names =
     map (\<lambda>n. (path_join d n, sep_join ''/'' (ps @ [n])))
       (filter (\<lambda>n. isfile fs (path_join d n) \<and> \<not> value_match_regexes n fp) names)"

definition found_dirs ::
  "regex list \<Rightarrow> filesystem \<Rightarrow> string \<Rightarrow> string list \<Rightarrow> string list \<Rightarrow> queue_item list" where
  "found_dirs dp fs d ps names =
     map (\<lambda>n. (path_join d n, ps @ [n]))
       (filter (\<lambda>n. \<not> isfile fs (path_join d n) \<and> \<not> value_match_regexes n dp) names)"

text \<open>The number of table keys strictly below a directory, plus one: the walkers' measure.\<close>

definition weight :: "filesystem \<Rightarrow> path \<Rightarrow> nat" where
  "weight fs c = Suc (card {k \<in> fst ` set fs. strict_prefix c k})"

definition stack_weight :: "filesystem \<Rightarrow> string list \<Rightarrow> nat" where
  "stack_weight fs st = sum_list (map (\<lambda>d. weight fs (comps d)) st)"

subsection \<open>Resolution of joined paths\<close>

lemma split_sep_nonempty: "split_sep c s \<noteq> []"
  by (induction s) (auto split: list.splits)

lemma split_sep_append: "split_sep c (a @ c # b) = split_sep c a @ split_sep c b"
  by (induction a) (auto split: list.splits simp: split_sep_nonempty)

lemma split_sep_without: "c \<notin> set s \<Longrightarrow> split_sep c s = [s]"
  by (induction s) (auto split: list.splits)

lemma comps_append_slash: "comps (a @ CHR ''/'' # b) = comps a @ comps b"
  by (simp add: comps_def split_sep_append)

lemma comps_name: "valid_name n \<Longrightarrow> comps n = [n]"
  by (simp add: comps_def valid_name_def split_sep_without)

lemma comps_Nil: "comps [] = []"
  by (simp add: comps_def)

lemma comps_path_join:
  assumes b: "b = [] \<or> hd b \<noteq> CHR ''/''"
  shows "comps (path_join a b) = comps a @ comps b"
proof (cases "a = [] \<or> last a = CHR ''/''")
  case True
  show ?thesis
  proof (cases "a = []")
    case True
    with b show ?thesis by (auto simp: path_join_def comps_Nil)
  next
    case False
    with True have "a = butlast a @ [CHR ''/'']" by (metis append_butlast_last_id)
    then obtain a' where a': "a = a' @ [CHR ''/'']" ..
    have "comps a = comps a'"
      using comps_append_slash[of a' "[]"] by (simp add: a' comps_Nil)
    moreover have "comps (a @ b) = comps a' @ comps b"
      using comps_append_slash[of a' b] by (simp add: a')
    ultimately show ?thesis using b a' by (auto simp: path_join_def)
  qed
next
  case False
  with b show ?thesis using comps_append_slash[of a b] by (auto simp: path_join_def)
qed

lemma comps_path_join_name: "valid_name n \<Longrightarrow> comps (path_join a n) = comps a @ [n]"
  using comps_path_join[of n a] by (cases n) (auto simp: comps_name valid_name_def)

lemma path_join_name_nonempty: "valid_name n \<Longrightarrow> path_join a n \<noteq> []"
  by (auto simp: path_join_def valid_name_def)

subsection \<open>The walkers terminate\<close>

lemma foldl_scan_name:
  "foldl (scan_name fp dp fs d ps) (out, q) names =
     (out @ found_files fp fs d ps names, q @ found_dirs dp fs d ps names)"
  by (induction names arbitrary: out q)
     (auto simp: scan_name_def found_files_def found_dirs_def Let_def)

lemma listdir_names:
  assumes "listdir fs d = Inr names"
  shows "distinct names"
    and "\<forall>n\<in>set names. valid_name n \<and> comps d @ [n] \<in> fst ` set fs"
proof -
  from assms have names: "names = remdups (map last
      (filter (\<lambda>k. k \<noteq> [] \<and> butlast k = comps d \<and> valid_name (last k)) (map fst fs)))"
    by (auto simp: listdir_def split: option.splits entry.splits)
  show "distinct names" by (simp add: names)
  show "\<forall>n\<in>set names. valid_name n \<and> comps d @ [n] \<in> fst ` set fs"
  proof
    fix n assume "n \<in> set names"
    then obtain k where k: "k \<in> fst ` set fs" "k \<noteq> []" "butlast k = comps d"
        "valid_name (last k)" "n = last k"
      by (auto simp: names)
    then have "comps d @ [n] = k" by (metis append_butlast_last_id)
    with k show "valid_name n \<and> comps d @ [n] \<in> fst ` set fs" by simp
  qed
qed

lemma below_children_le:
  assumes "finite K" "distinct ns" "\<forall>n\<in>set ns. c @ [n] \<in> K"
  shows "sum_list (map (\<lambda>n. Suc (card {k \<in> K. strict_prefix (c @ [n]) k})) ns)
           \<le> card {k \<in> K. \<exists>n\<in>set ns. prefix (c @ [n]) k}"
  using assms(2,3)
proof (induction ns)
  case Nil
  then show ?case by simp
next
  case (Cons n ns)
  let ?A = "{k \<in> K. prefix (c @ [n]) k}"
  let ?B = "{k \<in> K. \<exists>m\<in>set ns. prefix (c @ [m]) k}"
  have A: "?A = insert (c @ [n]) {k \<in> K. strict_prefix (c @ [n]) k}"
    using Cons.prems by (auto simp: strict_prefix_def)
  have cA: "card ?A = Suc (card {k \<in> K. strict_prefix (c @ [n]) k})"
    unfolding A using assms(1) by (subst card_insert_disjoint) auto
  have disj: "?A \<inter> ?B = {}"
  proof (rule ccontr)
    assume "?A \<inter> ?B \<noteq> {}"
    then obtain k m where "prefix (c @ [n]) k" "m \<in> set ns" "prefix (c @ [m]) k" by auto
    then have "n = m" by (auto simp: prefix_def)
    with \<open>m \<in> set ns\<close> Cons.prems show False by simp
  qed
  have un: "{k \<in> K. \<exists>m\<in>set (n # ns). prefix (c @ [m]) k} = ?A \<union> ?B" by auto
  have "card (?A \<union> ?B) = card ?A + card ?B"
    using assms(1) disj by (intro card_Un_disjoint) auto
  moreover have "sum_list (map (\<lambda>n. Suc (card {k \<in> K. strict_prefix (c @ [n]) k})) ns) \<le> card ?B"
    using Cons by simp
  ultimately show ?case unfolding un using cA by simp
qed

lemma children_weight_less:
  assumes "distinct ns" "\<forall>n\<in>set ns. c @ [n] \<in> fst ` set fs"
  shows "sum_list (map (\<lambda>n. weight fs (c @ [n])) ns) < weight fs c"
proof -
  let ?K = "fst ` set fs"
  have "sum_list (map (\<lambda>n. weight fs (c @ [n])) ns)
          \<le> card {k \<in> ?K. \<exists>n\<in>set ns. prefix (c @ [n]) k}"
    unfolding weight_def using below_children_le[of ?K ns c] assms by simp
  also have "\<dots> \<le> card {k \<in> ?K. strict_prefix c k}"
    by (rule card_mono) (auto simp: strict_prefix_def prefix_def)
  finally show ?thesis by (simp add: weight_def)
qed

lemma listed_children_weight:
  assumes "listdir fs d = Inr names"
  shows "stack_weight fs (map (path_join d) (filter P names)) < weight fs (comps d)"
proof -
  let ?ns = "filter P names"
  from listdir_names[OF assms]
  have d: "distinct ?ns" and v: "\<forall>n\<in>set ?ns. valid_name n \<and> comps d @ [n] \<in> fst ` set fs"
    by auto
  have "stack_weight fs (map (path_join d) ?ns) = sum_list (map (\<lambda>n. weight fs (comps d @ [n])) ?ns)"
    unfolding stack_weight_def using v
    by (auto simp: comp_def comps_path_join_name intro!: arg_cong[where f=sum_list] map_cong)
  also have "\<dots> < weight fs (comps d)" using children_weight_less[OF d] v by blast
  finally show ?thesis .
qed

lemma found_dirs_weight:
  assumes "listdir fs d = Inr names"
  shows "stack_weight fs (map fst (found_dirs dp fs d ps names)) < weight fs (comps d)"
  using listed_children_weight[OF assms] by (simp add: found_dirs_def comp_def)

subsection \<open>\<open>find_files_in_subdir\<close>\<close>

text \<open>The \<open>while hierarchy_queue\<close> loop.\<close>

function walk_queue ::
  "regex list \<Rightarrow> regex list \<Rightarrow> filesystem \<Rightarrow> queue_item list \<Rightarrow> file_entry list \<Rightarrow>
   error + file_entry list" where
  "walk_queue ignore_file_patterns ignore_dir_patterns fs hierarchy_queue output =
     (case hierarchy_queue of
        [] \<Rightarrow> Inr output
      | (dirpath, parents) # rest \<Rightarrow>
          (case listdir fs dirpath of
             Inl e \<Rightarrow> Inl e
           | Inr names \<Rightarrow>
               (case foldl (scan_name ignore_file_patterns ignore_dir_patterns fs dirpath parents)
                       (output, rest) names of
                  (output', queue') \<Rightarrow>
                    walk_queue ignore_file_patterns ignore_dir_patterns fs queue' output')))"
  by pat_completeness auto
termination
proof (relation "measure (\<lambda>(fp, dp, fs, q, out). stack_weight fs (map fst q))", goal_cases)
  case 1
  show ?case by simp
next
  case 2
  then show ?case
    using found_dirs_weight
    by (auto simp: foldl_scan_name stack_weight_def)
qed

declare walk_queue.simps [simp del]

definition find_files_in_subdir ::
  "filesystem \<Rightarrow> string \<Rightarrow> regex list option \<Rightarrow> regex list option \<Rightarrow> error + file_entry list" where
  "find_files_in_subdir fs src_path ignore_file_patterns ignore_dir_patterns =
     (let fp = (case ignore_file_patterns of None \<Rightarrow> IGNORE_FILE_PATTERNS | Some ps \<Rightarrow> ps);
          dp = (case ignore_dir_patterns of None \<Rightarrow> IGNORE_DIR_PATTERNS | Some ps \<Rightarrow> ps)
      in walk_queue fp dp fs [(src_path, [])] [])"

subsection \<open>\<open>os.walk\<close>\<close>

text \<open>
  \<open>os.walk(top)\<close>, top-down: each directory's triple before those of its
  subdirectories, a directory that cannot be listed is passed over.
\<close>

function os_walk_stack ::
  "filesystem \<Rightarrow> string list \<Rightarrow> (string \<times> string list \<times> string list) list \<Rightarrow>
   (string \<times> string list \<times> string list) list" where
  "os_walk_stack fs stack acc =
     (case stack of
        [] \<Rightarrow> acc
      | topdir # rest \<Rightarrow>
          (case listdir fs topdir of
             Inl e \<Rightarrow> os_walk_stack fs rest acc
           | Inr names \<Rightarrow>
               os_walk_stack fs
                 (map (path_join topdir) (filter (\<lambda>n. isdir fs (path_join topdir n)) names) @ rest)
                 (acc @ [(topdir, filter (\<lambda>n. isdir fs (path_join topdir n)) names,
                          filter (\<lambda>n. \<not> isdir fs (path_join topdir n)) names)])))"
  by pat_completeness auto
termination
proof (relation "measure (\<lambda>(fs, st, acc). stack_weight fs st)", goal_cases)
  case 1
  show ?case by simp
next
  case 2
  then show ?case by (simp add: stack_weight_def weight_def)
next
  case 3
  then show ?case
    using listed_children_weight
    by (auto simp: stack_weight_def)
qed

declare os_walk_stack.simps [simp del]

definition os_walk :: "filesystem \<Rightarrow> string \<Rightarrow> (string \<times> string list \<times> string list) list" where
  "os_walk fs topdir = os_walk_stack fs [topdir] []"

section \<open>The packager\<close>

subsection \<open>Constants of the script\<close>

definition nl :: string where
  "nl = [CHR 0x0A]"

definition dq :: string where
  "dq = [CHR 0x22]"

text \<open>\<open>CLIENT_VERSION_CONTENT.format(name, version)\<close>.\<close>

definition CLIENT_VERSION_CONTENT :: "string \<Rightarrow> string \<Rightarrow> string" where
  "CLIENT_VERSION_CONTENT name version =
     ''# -*- coding: utf-8 -*-'' @ nl @
     dq @ dq @ dq @ ''Package declaring ayon_usd addon version.'' @ nl @
     nl @
     ''Version is regenerated by `create_package.py` script or the'' @ nl @
     ''build system based on the content of package.py.'' @ nl @
     nl @
     ''Do not manually edit this file.'' @ nl @
     dq @ dq @ dq @ nl @
     ''name = '' @ dq @ name @ dq @ nl @
     ''__version__ = '' @ dq @ version @ dq @ nl"

definition AYON_SOURCE_URL :: string where
  "AYON_SOURCE_URL = ''https://distribute.openpype.io/thirdparty''"

record source_info =
  url :: string
  checksum :: string
  checksum_algorithm :: string

text \<open>The two entries of \<open>USD_SOURCES["24.03"]\<close>.\<close>

definition usd_24_03_windows :: source_info where
  "usd_24_03_windows =
     \<lparr>url = AYON_SOURCE_URL @ ''/usd-24.03_win64_py39.zip'',
      checksum = ''7d7852b9c8e3501e5f64175decc08d70e3bf1c083faaaf2c1a8aa8f9af43ab30'',
      checksum_algorithm = ''sha256''\<rparr>"

definition usd_24_03_linux :: source_info where
  "usd_24_03_linux =
     \<lparr>url = AYON_SOURCE_URL @ ''/usd-24.03_linux_py39.zip'',
      checksum = ''27010ad67d5acd25e3c95b1ace4ab30e047b5a9e48082db0545ae44ae7ec9b09'',
      checksum_algorithm = ''sha256''\<rparr>"

definition USD_SOURCES :: "(string \<times> (string \<times> source_info) list) list" where
  "USD_SOURCES =
     [(''24.03'', [(''windows'', usd_24_03_windows), (''linux'', usd_24_03_linux)])]"

text \<open>A Python \<open>dict\<close> with string keys and values, in insertion order.\<close>

type_synonym dict = "(string \<times> string) list"

definition dict_get :: "dict \<Rightarrow> string \<Rightarrow> error + string" where
  "dict_get d k = (case map_of d k of None \<Rightarrow> Inl (KeyError k) | Some v \<Rightarrow> Inr v)"

text \<open>
  \<open>json.dumps\<close> of a list of such dicts, with the default separators. Quotes and
  backslashes are escaped; other characters are written as they are.
\<close>

definition json_str :: "string \<Rightarrow> string" where
  "json_str s =
     dq @ concat (map (\<lambda>c. if c = CHR 0x22 \<or> c = CHR 0x5C then [CHR 0x5C, c] else [c]) s) @ dq"

definition json_dict :: "dict \<Rightarrow> string" where
  "json_dict d = ''{'' @ sep_join '', '' (map (\<lambda>(k, v). json_str k @ '': '' @ json_str v) d) @ ''}''"

definition json_dumps :: "dict list \<Rightarrow> string" where
  "json_dumps ds = ''['' @ sep_join '', '' (map json_dict ds) @ '']''"

subsection \<open>\<open>safe_copy_file\<close> and \<open>copy_server_content\<close>\<close>

text \<open>\<open>contextlib.suppress(Exception)\<close> around a step: whatever it raises is dropped.\<close>

definition suppress_Exception :: "(world \<Rightarrow> unit result) \<Rightarrow> world \<Rightarrow> unit result" where
  "suppress_Exception m w = (case m w of (Inl e, w') \<Rightarrow> ret () w' | (Inr u, w') \<Rightarrow> ret () w')"

definition safe_copy_file :: "string \<Rightarrow> string \<Rightarrow> world \<Rightarrow> unit result" where
  "safe_copy_file src_path dst_path w =
     (if src_path = dst_path then ret () w
      else (let dst_dir = dirname dst_path
            in andthen (suppress_Exception (os_makedirs dst_dir))
                 (\<lambda>u. shutil_copy src_path dst_path) w))"

fun copy_files :: "(string \<times> string) list \<Rightarrow> world \<Rightarrow> unit result" where
  "copy_files [] w = ret () w"
| "copy_files ((src_path, dst_path) # rest) w =
     (case safe_copy_file src_path dst_path w of
        (Inl e, w1) \<Rightarrow> (Inl e, w1)
      | (Inr u, w1) \<Rightarrow> copy_files rest w1)"

definition copy_server_content :: "string \<Rightarrow> string \<Rightarrow> world \<Rightarrow> unit result" where
  "copy_server_content addon_output_dir current_dir w =
     (let server_dirpath = path_join current_dir ''server''
      in case find_files_in_subdir (files w) server_dirpath None None of
           Inl e \<Rightarrow> raise e w
         | Inr found \<Rightarrow>
             copy_files
               (map (\<lambda>(src_path, dst_subpath).
                       (src_path, path_join (path_join addon_output_dir ''server'') dst_subpath))
                  found) w)"

definition fill_client_version :: "externals \<Rightarrow> string \<Rightarrow> world \<Rightarrow> unit result" where
  "fill_client_version E current_dir w =
     (let version_file =
            path_join (path_join (path_join current_dir ''client'') (ADDON_CLIENT_DIR E)) ''version.py''
      in write_file version_file (CLIENT_VERSION_CONTENT (ADDON_NAME E) (ADDON_VERSION E)) w)"

subsection \<open>Writing archives\<close>

text \<open>
  An archive opened for writing is the list of its members so far; the file on disk
  holds the container of these members. \<open>zipf.write(filename, arcname)\<close> stores the
  bytes of a file, or an empty member named \<open>arcname/\<close> for a directory. Member
  names are kept as they are passed.
\<close>

type_synonym members = "(string \<times> bytes) list"

definition zip_open :: "externals \<Rightarrow> string \<Rightarrow> world \<Rightarrow> members result" where
  "zip_open E zip_filepath w =
     andthen (write_file zip_filepath (zip_container E [])) (\<lambda>u. ret []) w"

definition zip_write ::
  "externals \<Rightarrow> string \<Rightarrow> members \<Rightarrow> string \<Rightarrow> string \<Rightarrow> world \<Rightarrow> members result" where
  "zip_write E zip_filepath ms filename arcname w =
     (case stat (files w) filename of
        Some Dir \<Rightarrow>
          andthen (write_file zip_filepath (zip_container E (ms @ [(arcname @ ''/'', [])])))
            (\<lambda>u. ret (ms @ [(arcname @ ''/'', [])])) w
      | _ \<Rightarrow>
          (case read_file (files w) filename of
             Inl e \<Rightarrow> raise e w
           | Inr content \<Rightarrow>
               andthen (write_file zip_filepath (zip_container E (ms @ [(arcname, content)])))
                 (\<lambda>u. ret (ms @ [(arcname, content)])) w))"

fun zip_write_all ::
  "externals \<Rightarrow> string \<Rightarrow> members \<Rightarrow> (string \<times> string) list \<Rightarrow> world \<Rightarrow> members result" where
  "zip_write_all E zip_filepath ms [] w = ret ms w"
| "zip_write_all E zip_filepath ms ((filename, arcname) # rest) w =
     (case zip_write E zip_filepath ms filename arcname w of
        (Inl e, w1) \<Rightarrow> (Inl e, w1)
      | (Inr ms1, w1) \<Rightarrow> zip_write_all E zip_filepath ms1 rest w1)"

definition zip_client_side :: "externals \<Rightarrow> string \<Rightarrow> string \<Rightarrow> world \<Rightarrow> unit result" where
  "zip_client_side E addon_package_dir current_dir w =
     (let client_dir = path_join current_dir ''client''
      in if \<not> isdir (files w) client_dir then ret () w
         else (let private_dir = path_join addon_package_dir ''private'';
                   zip_filepath = path_join private_dir ''client.zip''
               in andthen
                    (\<lambda>w. if \<not> path_exists (files w) private_dir then os_makedirs private_dir w
                          else ret () w)
                    (\<lambda>u. andthen (zip_open E zip_filepath)
                       (\<lambda>ms w. case find_files_in_subdir (files w) client_dir None None of
                                  Inl e \<Rightarrow> raise e w
                                | Inr found \<Rightarrow>
                                    andthen (zip_write_all E zip_filepath ms found)
                                      (\<lambda>ms'. ret ()) w)) w))"

subsection \<open>\<open>download_usd_zip\<close>\<close>

text \<open>The part of the loop body after the cache check: fetch, then verify.\<close>

definition fetch_and_verify ::
  "externals \<Rightarrow> string \<Rightarrow> string \<Rightarrow> string \<Rightarrow> string \<Rightarrow> world \<Rightarrow> unit result" where
  "fetch_and_verify E src_url zip_path chk alg w =
     andthen (urlretrieve E src_url zip_path)
       (\<lambda>u w1. case calculate_file_checksum E (files w1) zip_path alg default_chunk_size of
                  Inl e \<Rightarrow> raise e w1
                | Inr file_checksum \<Rightarrow>
                    if chk \<noteq> file_checksum
                    then raise (ValueError (''USD zip checksum mismatch: '' @ file_checksum @ '' != '' @ chk)) w1
                    else ret () w1) w"

definition zip_file_info :: "externals \<Rightarrow> string \<Rightarrow> source_info \<Rightarrow> dict" where
  "zip_file_info E platform_name platform_info =
     [(''name'', ADDON_NAME E),
      (''filename'', last (split_sep CHR ''/'' (url platform_info))),
      (''checksum'', checksum platform_info),
      (''checksum_algorithm'', checksum_algorithm platform_info),
      (''platform'', platform_name)]"

text \<open>The body of the inner loop, for one platform of one release.\<close>

definition download_platform ::
  "externals \<Rightarrow> string \<Rightarrow> string \<Rightarrow> source_info \<Rightarrow> dict list \<Rightarrow> world \<Rightarrow> (dict list) result" where
  "download_platform E downloads_dir platform_name platform_info zip_files_info w =
     (let src_url = url platform_info;
          filename = last (split_sep CHR ''/'' src_url);
          zip_path = path_join downloads_dir filename;
          chk = checksum platform_info;
          alg = checksum_algorithm platform_info;
          infos = zip_files_info @ [zip_file_info E platform_name platform_info]
      in if path_exists (files w) zip_path
         then (case calculate_file_checksum E (files w) zip_path alg default_chunk_size of
                 Inl e \<Rightarrow> raise e w
               | Inr file_checksum \<Rightarrow>
                   if chk = file_checksum then ret infos w
                   else andthen (os_remove zip_path)
                          (\<lambda>u. andthen (fetch_and_verify E src_url zip_path chk alg)
                             (\<lambda>u. ret infos)) w)
         else andthen (fetch_and_verify E src_url zip_path chk alg) (\<lambda>u. ret infos) w)"

fun download_platforms ::
  "externals \<Rightarrow> string \<Rightarrow> (string \<times> source_info) list \<Rightarrow> dict list \<Rightarrow> world \<Rightarrow> (dict list) result" where
  "download_platforms E downloads_dir [] zip_files_info w = ret zip_files_info w"
| "download_platforms E downloads_dir ((platform_name, platform_info) # rest) zip_files_info w =
     (case download_platform E downloads_dir platform_name platform_info zip_files_info w of
        (Inl e, w1) \<Rightarrow> (Inl e, w1)
      | (Inr infos, w1) \<Rightarrow> download_platforms E downloads_dir rest infos w1)"

fun download_items ::
  "externals \<Rightarrow> string \<Rightarrow> (string \<times> (string \<times> source_info) list) list \<Rightarrow> dict list \<Rightarrow> world \<Rightarrow>
   (dict list) result" where
  "download_items E downloads_dir [] zip_files_info w = ret zip_files_info w"
| "download_items E downloads_dir ((item_name, item_info) # rest) zip_files_info w =
     (case download_platforms E downloads_dir item_info zip_files_info w of
        (Inl e, w1) \<Rightarrow> (Inl e, w1)
      | (Inr infos, w1) \<Rightarrow> download_items E downloads_dir rest infos w1)"

definition download_usd_zip :: "externals \<Rightarrow> string \<Rightarrow> world \<Rightarrow> (dict list) result" where
  "download_usd_zip E downloads_dir w = download_items E downloads_dir USD_SOURCES [] w"

subsection \<open>\<open>create_server_package\<close>\<close>

text \<open>The pairs \<open>(src_path, dst_path)\<close> the loop over \<open>os.walk(addon_output_dir)\<close> writes, in order.\<close>

definition walk_members ::
  "string \<Rightarrow> (string \<times> string list \<times> string list) list \<Rightarrow> (string \<times> string) list" where
  "walk_members addon_output_dir walked =
     concat (map (\<lambda>(root, dirs, filenames).
        (let dst_root = (if root \<noteq> addon_output_dir
                         then Some (drop (length addon_output_dir + 1) root) else None)
         in map (\<lambda>filename.
                   (path_join root filename,
                    (case dst_root of
                       None \<Rightarrow> filename
                     | Some r \<Rightarrow> if r \<noteq> [] then path_join r filename else filename)))
              filenames)) walked)"

definition package_zip_name :: "externals \<Rightarrow> string \<Rightarrow> string" where
  "package_zip_name E addon_version = ADDON_NAME E @ ''-'' @ addon_version @ ''.zip''"

definition create_server_package ::
  "externals \<Rightarrow> string \<Rightarrow> string \<Rightarrow> string \<Rightarrow> string \<Rightarrow> world \<Rightarrow> unit result" where
  "create_server_package E current_dir output_dir addon_output_dir addon_version w =
     (let output_path = path_join output_dir (package_zip_name E addon_version)
      in andthen (zip_open E output_path)
           (\<lambda>ms. andthen
              (zip_write E output_path ms (path_join current_dir ''package.py'') ''package.py'')
              (\<lambda>ms1 w1. andthen
                 (zip_write_all E output_path ms1
                    (walk_members addon_output_dir (os_walk (files w1) addon_output_dir)))
                 (\<lambda>ms2. ret ()) w1)) w)"

subsection \<open>\<open>main\<close>\<close>

fun copy_archives :: "string \<Rightarrow> string \<Rightarrow> dict list \<Rightarrow> world \<Rightarrow> unit result" where
  "copy_archives downloads_dir private_dir [] w = ret () w"
| "copy_archives downloads_dir private_dir (file_info # rest) w =
     (case dict_get file_info ''filename'' of
        Inl e \<Rightarrow> raise e w
      | Inr filename \<Rightarrow>
          (case shutil_copy (path_join downloads_dir filename) (path_join private_dir filename) w of
             (Inl e, w1) \<Rightarrow> (Inl e, w1)
           | (Inr u, w1) \<Rightarrow> copy_archives downloads_dir private_dir rest w1))"

definition main :: "externals \<Rightarrow> string option \<Rightarrow> bool \<Rightarrow> bool \<Rightarrow> world \<Rightarrow> unit result" where
  "main E output_dir_arg skip_zip keep_sources w0 =
     (let current_dir = dirname (script_abspath E);
          output_dir = (case output_dir_arg of
                          None \<Rightarrow> path_join current_dir ''package''
                        | Some d \<Rightarrow> if d = [] then path_join current_dir ''package'' else d);
          downloads_dir = path_join current_dir ''downloads'';
          new_created_version_dir = path_join (path_join output_dir (ADDON_NAME E)) (ADDON_VERSION E);
          addon_output_root = path_join output_dir (ADDON_NAME E);
          addon_output_dir = path_join addon_output_root (ADDON_VERSION E);
          private_dir = path_join addon_output_dir ''private'';
          zips_info_path = path_join private_dir ''files_info.json''
      in andthen (path_mkdir False True downloads_dir)
        (\<lambda>u. andthen (download_usd_zip E downloads_dir)
        (\<lambda>files_info. andthen
           (\<lambda>w. if isdir (files w) new_created_version_dir then shutil_rmtree output_dir w
                 else ret () w)
        (\<lambda>u. andthen (fill_client_version E current_dir)
        (\<lambda>u. andthen
           (\<lambda>w. if \<not> path_exists (files w) addon_output_dir then os_makedirs addon_output_dir w
                 else ret () w)
        (\<lambda>u. andthen (copy_server_content addon_output_dir current_dir)
        (\<lambda>u. andthen
           (\<lambda>w. if \<not> path_exists (files w) private_dir then path_mkdir True False private_dir w
                 else ret () w)
        (\<lambda>u. andthen (copy_archives downloads_dir private_dir files_info)
        (\<lambda>u. andthen (write_file zips_info_path (json_dumps files_info))
        (\<lambda>u. andthen (zip_client_side E addon_output_dir current_dir)
        (\<lambda>u. if \<not> skip_zip
              then andthen
                     (create_server_package E current_dir output_dir addon_output_dir (ADDON_VERSION E))
                     (\<lambda>u. if \<not> keep_sources then shutil_rmtree addon_output_root else ret ())
              else ret ())))))))))) w0)"


section \<open>Properties\<close>

subsection \<open>The long-path-safe archive class\<close>

lemma is_windows_Linux: "\<not> is_windows ''Linux''"
  by (simp add: is_windows_def str_lower_def chr_lower_def)

lemma is_windows_Windows: "is_windows ''Windows''"
  by code_simp

text \<open>
  C8. \<open>ZipFileLongPaths\<close> changes the extraction target only on Windows: on any
  other platform \<open>_extract_member\<close> hands the target path to the base class
  unchanged, on Windows it hands over the absolute path with the extended-length
  prefix, and the writing method is the base class's on every platform.
\<close>

theorem long_paths_only_on_extraction:
  "(\<not> is_windows platform_system \<longrightarrow>
      extract_member (ZipFileLongPaths platform_system abspath ZipFile) member tpath pwd
        = extract_member ZipFile member tpath pwd)
   \<and> (is_windows platform_system \<longrightarrow>
      extract_member (ZipFileLongPaths platform_system abspath ZipFile) member tpath pwd
        = extract_member ZipFile member
            (if prefix [CHR 0x5C, CHR 0x5C] (abspath tpath)
             then [CHR 0x5C, CHR 0x5C, CHR ''?'', CHR 0x5C] @ ''UNC'' @ [CHR 0x5C] @ drop 2 (abspath tpath)
             else [CHR 0x5C, CHR 0x5C, CHR ''?'', CHR 0x5C] @ abspath tpath) pwd)
   \<and> write_member (ZipFileLongPaths platform_system abspath ZipFile) = write_member ZipFile"
  by (simp add: ZipFileLongPaths_def long_tpath_def Let_def)

theorem long_paths_only_on_extraction_witness:
  "\<not> is_windows ''Linux''
   \<and> extract_member (ZipFileLongPaths ''Linux'' (\<lambda>p. ''C:'' @ [CHR 0x5C] @ p)
         \<lparr>extract_member = (\<lambda>member tpath pwd. tpath), write_member = ()\<rparr>) ''m.txt'' ''out'' None = ''out''
   \<and> is_windows ''Windows''
   \<and> extract_member (ZipFileLongPaths ''Windows'' (\<lambda>p. ''C:'' @ [CHR 0x5C] @ p)
         \<lparr>extract_member = (\<lambda>member tpath pwd. tpath), write_member = ()\<rparr>) ''m.txt'' ''out'' None
       = [CHR 0x5C, CHR 0x5C, CHR ''?'', CHR 0x5C] @ ''C:'' @ [CHR 0x5C] @ ''out''"
  using long_paths_only_on_extraction[of "''Linux''" "\<lambda>p. ''C:'' @ [CHR 0x5C] @ p"
      "\<lparr>extract_member = (\<lambda>member tpath pwd. tpath), write_member = ()\<rparr>" "''m.txt''" "''out''" None]
    long_paths_only_on_extraction[of "''Windows''" "\<lambda>p. ''C:'' @ [CHR 0x5C] @ p"
      "\<lparr>extract_member = (\<lambda>member tpath pwd. tpath), write_member = ()\<rparr>" "''m.txt''" "''out''" None]
    is_windows_Linux is_windows_Windows
  by simp

subsection \<open>The runtime environment initializer\<close>

lemma environ_initialize:
  "environ (initialize_environment usd_root addon_dir pathsep p) =
     (environ p)(''PXR_PLUGINPATH_NAME'' \<mapsto> addon_dir, ''USD_ASSET_RESOLVER'' \<mapsto> [],
        ''TF_DEBUG'' \<mapsto> ''1'',
        ''PYTHONPATH'' \<mapsto> path_join (path_join usd_root ''lib'') ''python'',
        ''PATH'' \<mapsto> fmt_getenv p ''PATH'' @ pathsep @ path_join usd_root ''bin'',
        ''AYONLOGGERLOGLVL'' \<mapsto> ''WARN'', ''AYONLOGGERSFILELOGGING'' \<mapsto> ''1'',
        ''AYONLOGGERSFILEPOS'' \<mapsto> ''.log'')"
  by (simp add: initialize_environment_def setenv_def fmt_getenv_def Let_def)

text \<open>
  C7, as stated, with exactly two logger variables next to the five others: no choice
  of two names covers what \<open>initialize_environment\<close> changes, since it sets the
  three variables \<open>AYONLOGGERLOGLVL\<close>, \<open>AYONLOGGERSFILELOGGING\<close> and
  \<open>AYONLOGGERSFILEPOS\<close>.
\<close>

theorem two_logger_variables_counterexample:
  "\<not> (\<exists>a b. \<forall>k. k \<notin> {''PXR_PLUGINPATH_NAME'', ''USD_ASSET_RESOLVER'', ''TF_DEBUG'',
                          ''PYTHONPATH'', ''PATH'', a, b} \<longrightarrow>
          environ (initialize_environment ''/usd'' ''/addon'' '':''
                     \<lparr>sys_path = [], environ = Map.empty\<rparr>) k = Map.empty k)"
proof
  let ?env = "environ (initialize_environment ''/usd'' ''/addon'' '':'' \<lparr>sys_path = [], environ = Map.empty\<rparr>)"
  assume "\<exists>a b. \<forall>k. k \<notin> {''PXR_PLUGINPATH_NAME'', ''USD_ASSET_RESOLVER'', ''TF_DEBUG'',
                          ''PYTHONPATH'', ''PATH'', a, b} \<longrightarrow> ?env k = Map.empty k"
  then obtain a b where H: "\<And>k. k \<notin> {''PXR_PLUGINPATH_NAME'', ''USD_ASSET_RESOLVER'', ''TF_DEBUG'',
                          ''PYTHONPATH'', ''PATH'', a, b} \<Longrightarrow> ?env k = None"
    by auto
  have e1: "?env ''AYONLOGGERLOGLVL'' \<noteq> None" by (simp add: environ_initialize)
  have e2: "?env ''AYONLOGGERSFILELOGGING'' \<noteq> None" by (simp add: environ_initialize)
  have e3: "?env ''AYONLOGGERSFILEPOS'' \<noteq> None" by (simp add: environ_initialize)
  from H[of "''AYONLOGGERLOGLVL''"] e1 have m1: "''AYONLOGGERLOGLVL'' = a \<or> ''AYONLOGGERLOGLVL'' = b"
    by auto
  from H[of "''AYONLOGGERSFILELOGGING''"] e2
  have m2: "''AYONLOGGERSFILELOGGING'' = a \<or> ''AYONLOGGERSFILELOGGING'' = b"
    by auto
  from H[of "''AYONLOGGERSFILEPOS''"] e3
  have m3: "''AYONLOGGERSFILEPOS'' = a \<or> ''AYONLOGGERSFILEPOS'' = b"
    by auto
  from m1 m2 m3 show False by auto
qed

text \<open>
  C7, amended. \<open>initialize_environment\<close> appends exactly one entry, the USD root's
  \<open>lib/python\<close>, to the module search path; sets \<open>PXR_PLUGINPATH_NAME\<close>,
  clears \<open>USD_ASSET_RESOLVER\<close>, sets \<open>TF_DEBUG\<close> and \<open>PYTHONPATH\<close>; appends
  the USD \<open>bin\<close> directory to \<open>PATH\<close>, a value \<open>PATH\<close> had before staying
  as the prefix; sets three logger variables; and changes no variable outside
  these eight.
\<close>

theorem initialize_environment_sets_eight:
  "sys_path (initialize_environment usd_root addon_dir pathsep p)
     = sys_path p @ [path_join (path_join usd_root ''lib'') ''python'']
   \<and> environ (initialize_environment usd_root addon_dir pathsep p) ''PXR_PLUGINPATH_NAME'' = Some addon_dir
   \<and> environ (initialize_environment usd_root addon_dir pathsep p) ''USD_ASSET_RESOLVER'' = Some []
   \<and> environ (initialize_environment usd_root addon_dir pathsep p) ''TF_DEBUG'' = Some ''1''
   \<and> environ (initialize_environment usd_root addon_dir pathsep p) ''PYTHONPATH''
        = Some (path_join (path_join usd_root ''lib'') ''python'')
   \<and> (\<forall>v. environ p ''PATH'' = Some v \<longrightarrow>
          environ (initialize_environment usd_root addon_dir pathsep p) ''PATH''
            = Some (v @ pathsep @ path_join usd_root ''bin''))
   \<and> environ (initialize_environment usd_root addon_dir pathsep p) ''AYONLOGGERLOGLVL'' = Some ''WARN''
   \<and> environ (initialize_environment usd_root addon_dir pathsep p) ''AYONLOGGERSFILELOGGING'' = Some ''1''
   \<and> environ (initialize_environment usd_root addon_dir pathsep p) ''AYONLOGGERSFILEPOS'' = Some ''.log''
   \<and> (\<forall>k. k \<notin> env_vars_set \<longrightarrow>
          environ (initialize_environment usd_root addon_dir pathsep p) k = environ p k)"
  unfolding environ_initialize
  by (simp add: env_vars_set_def fmt_getenv_def initialize_environment_def setenv_def Let_def)

theorem initialize_environment_sets_eight_witness:
  "environ \<lparr>sys_path = [''/py''], environ = [''PATH'' \<mapsto> ''/bin'', ''HOME'' \<mapsto> ''/root'']\<rparr> ''PATH'' = Some ''/bin''
   \<and> ''HOME'' \<notin> env_vars_set
   \<and> environ (initialize_environment ''/usd'' ''/addon'' '':''
         \<lparr>sys_path = [''/py''], environ = [''PATH'' \<mapsto> ''/bin'', ''HOME'' \<mapsto> ''/root'']\<rparr>) ''PATH''
       = Some ''/bin:/usd/bin''
   \<and> environ (initialize_environment ''/usd'' ''/addon'' '':''
         \<lparr>sys_path = [''/py''], environ = [''PATH'' \<mapsto> ''/bin'', ''HOME'' \<mapsto> ''/root'']\<rparr>) ''HOME''
       = Some ''/root''
   \<and> sys_path (initialize_environment ''/usd'' ''/addon'' '':''
         \<lparr>sys_path = [''/py''], environ = [''PATH'' \<mapsto> ''/bin'', ''HOME'' \<mapsto> ''/root'']\<rparr>)
       = [''/py'', ''/usd/lib/python'']"
  using initialize_environment_sets_eight[of "''/usd''" "''/addon''" "'':''"
      "\<lparr>sys_path = [''/py''], environ = [''PATH'' \<mapsto> ''/bin'', ''HOME'' \<mapsto> ''/root'']\<rparr>"]
  by (simp add: env_vars_set_def path_join_def)

subsection \<open>Checksums\<close>

text \<open>An instance of the externals whose every hash algorithm returns its input.\<close>

definition E_id :: externals where
  "E_id = \<lparr>hashlib = (\<lambda>a. Some (\<lambda>b. b)), url_content = (\<lambda>u. None), zip_container = (\<lambda>ms. []),
           ADDON_NAME = ''a'', ADDON_VERSION = ''1'', ADDON_CLIENT_DIR = ''c'', script_abspath = ''/r/s.py''\<rparr>"

text \<open>
  C9, as stated, for any chunk size: with chunk size 0 the first read returns no
  bytes, the loop ends at once and the digest is that of the empty string.
\<close>

theorem any_chunk_size_counterexample:
  "\<not> (\<forall>E hash_algorithm func fs filepath content chunk_size.
         hashlib E hash_algorithm = Some func \<and> read_file fs filepath = Inr content
         \<longrightarrow> calculate_file_checksum E fs filepath hash_algorithm chunk_size = Inr (func content))"
proof
  assume H: "\<forall>E hash_algorithm func fs filepath content chunk_size.
         hashlib E hash_algorithm = Some func \<and> read_file fs filepath = Inr content
         \<longrightarrow> calculate_file_checksum E fs filepath hash_algorithm chunk_size = Inr (func content)"
  have r1: "read_file [([''f''], File ''abcde'')] ''f'' = Inr ''abcde''" by code_simp
  have h: "hashlib E_id ''sha256'' = Some (\<lambda>b. b)" by (simp add: E_id_def)
  have "calculate_file_checksum E_id [([''f''], File ''abcde'')] ''f'' ''sha256'' 0 = Inr ''abcde''"
    using H r1 h by blast
  moreover have "calculate_file_checksum E_id [([''f''], File ''abcde'')] ''f'' ''sha256'' 0 = Inr []"
    by (simp add: calculate_file_checksum_closed h r1)
  ultimately show False by simp
qed

text \<open>
  C9, amended. \<open>calculate_file_checksum\<close> depends only on the bytes of the file
  and the algorithm: two files with the same contents give the same result, and
  with any positive chunk size (or \<open>-1\<close>, which reads to the end) the result is
  the digest of the whole contents hashed at once.
\<close>

theorem checksum_of_content:
  "(hashlib E hash_algorithm = Some func \<and> read_file fs filepath = Inr content
      \<and> (0 < chunk_size \<or> chunk_size = - 1)
      \<longrightarrow> calculate_file_checksum E fs filepath hash_algorithm chunk_size = Inr (func content))
   \<and> (read_file fs filepath = read_file fs' filepath'
      \<longrightarrow> calculate_file_checksum E fs filepath hash_algorithm chunk_size
            = calculate_file_checksum E fs' filepath' hash_algorithm chunk_size)"
  by (auto simp: calculate_file_checksum_closed split: option.splits)

theorem checksum_of_content_witness:
  "hashlib E_id ''sha256'' = Some (\<lambda>b. b)
   \<and> read_file [([''f''], File ''abcde'')] ''f'' = Inr ''abcde''
   \<and> read_file [([''f''], File ''abcde'')] ''f'' = read_file [([''g''], File ''abcde'')] ''/g''
   \<and> calculate_file_checksum E_id [([''f''], File ''abcde'')] ''f'' ''sha256'' 2 = Inr ''abcde''
   \<and> calculate_file_checksum E_id [([''f''], File ''abcde'')] ''f'' ''sha256'' 2
       = calculate_file_checksum E_id [([''g''], File ''abcde'')] ''/g'' ''sha256'' 2"
proof -
  have r1: "read_file [([''f''], File ''abcde'')] ''f'' = Inr ''abcde''" by code_simp
  have r2: "read_file [([''g''], File ''abcde'')] ''/g'' = Inr ''abcde''" by code_simp
  have h: "hashlib E_id ''sha256'' = Some (\<lambda>b. b)" by (simp add: E_id_def)
  show ?thesis
    using checksum_of_content[of E_id "''sha256''" "\<lambda>b. b" "[([''f''], File ''abcde'')]" "''f''" "''abcde''" 2
        "[([''g''], File ''abcde'')]" "''/g''"] r1 r2 h
    by auto
qed

subsection \<open>The filtered tree walker\<close>

text \<open>
  A well-formed table: every key is a non-empty list of valid names, and every
  proper prefix of a key is a directory.
\<close>

definition wf_fs :: "filesystem \<Rightarrow> bool" where
  "wf_fs fs =
     list_all (\<lambda>k. k \<noteq> [] \<and> list_all valid_name k
                  \<and> list_all (\<lambda>p. stat_c fs p = Some Dir) (butlast (prefixes k)))
       (map fst fs)"

text \<open>
  The files the specification asks for, as component paths relative to the root:
  a file below the root whose own name matches no file pattern and none of whose
  directories below the root matches a directory pattern.
\<close>

definition wanted_files :: "filesystem \<Rightarrow> string \<Rightarrow> regex list \<Rightarrow> regex list \<Rightarrow> string list set" where
  "wanted_files fs src_path fp dp =
     {rel. rel \<noteq> [] \<and> (\<exists>b. stat_c fs (comps src_path @ rel) = Some (File b))
           \<and> \<not> value_match_regexes (last rel) fp
           \<and> (\<forall>d\<in>set (butlast rel). \<not> value_match_regexes d dp)}"

text \<open>The output entry of such a file: its path, joined onto the root, and its relative path.\<close>

definition file_entry_of :: "string \<Rightarrow> string list \<Rightarrow> file_entry" where
  "file_entry_of src_path rel = (foldl path_join src_path rel, sep_join ''/'' rel)"

text \<open>The same below a directory of the queue, whose components under the root are \<open>ps\<close>.\<close>

definition wanted_below ::
  "filesystem \<Rightarrow> path \<Rightarrow> regex list \<Rightarrow> regex list \<Rightarrow> string list \<Rightarrow> string list set" where
  "wanted_below fs c fp dp ps =
     {ps @ r | r. r \<noteq> [] \<and> (\<exists>b. stat_c fs (c @ ps @ r) = Some (File b))
           \<and> \<not> value_match_regexes (last r) fp
           \<and> (\<forall>d\<in>set (butlast r). \<not> value_match_regexes d dp)}"

lemma set_butlast_prefixes: "set (butlast (prefixes k)) = {p. strict_prefix p k}"
proof -
  have "prefixes k = butlast (prefixes k) @ [k]"
    by (metis append_butlast_last_id last_prefixes prefixes_not_Nil)
  then obtain xs where xs: "prefixes k = xs @ [k]" ..
  have "distinct (xs @ [k])" using distinct_prefixes[of k] by (simp add: xs)
  then have nk: "k \<notin> set xs" by simp
  have "\<And>p. (p \<in> set xs \<or> p = k) = prefix p k"
    using in_set_prefixes[of _ k] by (auto simp: xs)
  with nk have "set xs = {p. strict_prefix p k}" by (auto simp: strict_prefix_def)
  then show ?thesis by (simp add: xs)
qed

lemma wf_fs_key:
  assumes "wf_fs fs" "k \<in> fst ` set fs"
  shows "k \<noteq> []" and "\<forall>n\<in>set k. valid_name n" and "\<forall>p. strict_prefix p k \<longrightarrow> stat_c fs p = Some Dir"
proof -
  from assms have a: "k \<noteq> [] \<and> list_all valid_name k
                  \<and> list_all (\<lambda>p. stat_c fs p = Some Dir) (butlast (prefixes k))"
    by (auto simp: wf_fs_def list_all_iff)
  show "k \<noteq> []" using a by simp
  show "\<forall>n\<in>set k. valid_name n" using a by (simp add: list_all_iff)
  show "\<forall>p. strict_prefix p k \<longrightarrow> stat_c fs p = Some Dir"
    using a set_butlast_prefixes[of k] by (auto simp: list_all_iff)
qed

lemma stat_c_key: "k \<noteq> [] \<Longrightarrow> (stat_c fs k \<noteq> None) = (k \<in> fst ` set fs)"
  by (simp add: stat_c_def map_of_eq_None_iff)

lemma listdir_Dir:
  assumes "stat fs d = Some Dir"
  shows "\<exists>names. listdir fs d = Inr names \<and> distinct names
           \<and> set names = {n. valid_name n \<and> comps d @ [n] \<in> fst ` set fs}"
proof -
  let ?names = "remdups (map last
      (filter (\<lambda>k. k \<noteq> [] \<and> butlast k = comps d \<and> valid_name (last k)) (map fst fs)))"
  have "listdir fs d = Inr ?names" using assms by (simp add: listdir_def)
  moreover have "set ?names = {n. valid_name n \<and> comps d @ [n] \<in> fst ` set fs}"
  proof (intro set_eqI iffI)
    fix n assume "n \<in> set ?names"
    then obtain k where k: "k \<in> fst ` set fs" "k \<noteq> []" "butlast k = comps d"
        "valid_name (last k)" "n = last k" by auto
    then have "comps d @ [n] = k" by (metis append_butlast_last_id)
    with k show "n \<in> {n. valid_name n \<and> comps d @ [n] \<in> fst ` set fs}" by simp
  next
    fix n assume "n \<in> {n. valid_name n \<and> comps d @ [n] \<in> fst ` set fs}"
    then have "valid_name n" "comps d @ [n] \<in> fst ` set fs" by auto
    then have "comps d @ [n] \<in> set (filter (\<lambda>k. k \<noteq> [] \<and> butlast k = comps d \<and> valid_name (last k)) (map fst fs))"
      by auto
    then have "last (comps d @ [n]) \<in> set ?names" by (metis (no_types, lifting) image_eqI set_map set_remdups)
    then show "n \<in> set ?names" by simp
  qed
  ultimately show ?thesis by auto
qed

lemma isfile_join:
  "valid_name n \<Longrightarrow> isfile fs (path_join d n) = (\<exists>b. stat_c fs (comps d @ [n]) = Some (File b))"
  by (auto simp: isfile_def stat_def comps_path_join_name path_join_name_nonempty
      split: option.splits entry.splits)

lemma wanted_below_split:
  assumes "wf_fs fs"
  shows "wanted_below fs c fp dp ps =
     {ps @ [n] | n. (\<exists>b. stat_c fs (c @ ps @ [n]) = Some (File b)) \<and> \<not> value_match_regexes n fp}
     \<union> (\<Union>n\<in>{n. stat_c fs (c @ ps @ [n]) = Some Dir \<and> \<not> value_match_regexes n dp}.
           wanted_below fs c fp dp (ps @ [n]))"
  (is "?L = ?A \<union> ?B")
proof (intro set_eqI iffI)
  fix rel assume "rel \<in> ?L"
  then obtain r b where r: "rel = ps @ r" "r \<noteq> []" "stat_c fs (c @ ps @ r) = Some (File b)"
      "\<not> value_match_regexes (last r) fp" "\<forall>d\<in>set (butlast r). \<not> value_match_regexes d dp"
    by (auto simp: wanted_below_def)
  from r(2) obtain n r' where nr: "r = n # r'" by (cases r) auto
  show "rel \<in> ?A \<union> ?B"
  proof (cases "r' = []")
    case True
    with r nr show ?thesis by auto
  next
    case False
    have key: "c @ ps @ r \<in> fst ` set fs"
      using r(3) stat_c_key[of "c @ ps @ r" fs] nr by auto
    have "strict_prefix (c @ ps @ [n]) (c @ ps @ r)" using nr False by (auto simp: strict_prefix_def)
    then have dir: "stat_c fs (c @ ps @ [n]) = Some Dir" using wf_fs_key(3)[OF assms key] by blast
    have nm: "\<not> value_match_regexes n dp" using r(5) nr False by auto
    have "rel \<in> wanted_below fs c fp dp (ps @ [n])"
      unfolding wanted_below_def using r nr False by (auto intro!: exI[of _ r'])
    with dir nm show ?thesis by blast
  qed
next
  fix rel assume "rel \<in> ?A \<union> ?B"
  then show "rel \<in> ?L"
  proof
    assume "rel \<in> ?A"
    then obtain n b where "rel = ps @ [n]" "stat_c fs (c @ ps @ [n]) = Some (File b)" "\<not> value_match_regexes n fp"
      by auto
    then show ?thesis unfolding wanted_below_def by (auto intro!: exI[of _ "[n]"])
  next
    assume "rel \<in> ?B"
    then obtain n r b where n: "stat_c fs (c @ ps @ [n]) = Some Dir" "\<not> value_match_regexes n dp"
      and r: "rel = (ps @ [n]) @ r" "r \<noteq> []" "stat_c fs (c @ (ps @ [n]) @ r) = Some (File b)"
      "\<not> value_match_regexes (last r) fp" "\<forall>d\<in>set (butlast r). \<not> value_match_regexes d dp"
      by (auto simp: wanted_below_def)
    then show ?thesis unfolding wanted_below_def by (auto intro!: exI[of _ "n # r"])
  qed
qed


text \<open>
  The invariant of the queue: every item is a directory below the root, named by
  the path joined from its components, and no item lies below another.
\<close>

definition queue_ok :: "filesystem \<Rightarrow> string \<Rightarrow> queue_item list \<Rightarrow> bool" where
  "queue_ok fs root q =
     ((\<forall>item\<in>set q. fst item = foldl path_join root (snd item) \<and> fst item \<noteq> []
          \<and> comps (fst item) = comps root @ snd item
          \<and> stat_c fs (comps root @ snd item) = Some Dir)
      \<and> distinct (map snd q)
      \<and> (\<forall>a\<in>snd ` set q. \<forall>b\<in>snd ` set q. a \<noteq> b \<longrightarrow> \<not> prefix a b))"

lemma wanted_below_prefix: "rel \<in> wanted_below fs c fp dp ps \<Longrightarrow> strict_prefix ps rel"
  by (auto simp: wanted_below_def strict_prefix_def)

lemma UN_image_split:
  "A' = A \<union> f ` D \<Longrightarrow> (\<Union>a\<in>A'. W a) = (\<Union>a\<in>A. W a) \<union> (\<Union>n\<in>D. W (f n))"
  by auto

lemma walked_sets:
  "set rs = U \<Longrightarrow> U = B \<union> C \<Longrightarrow> Wp = set fs \<union> C \<Longrightarrow> Q = insert p R
   \<Longrightarrow> B = (\<Union>a\<in>R. W a) \<Longrightarrow> Wp = W p \<Longrightarrow> set (fs @ rs) = (\<Union>a\<in>Q. W a)"
  by auto

lemma walk_queue_exact:
  "wf_fs fs \<Longrightarrow> queue_ok fs root q \<Longrightarrow>
   \<exists>rels. walk_queue fp dp fs q out = Inr (out @ map (file_entry_of root) rels)
      \<and> distinct rels
      \<and> set rels = (\<Union>ps\<in>snd ` set q. wanted_below fs (comps root) fp dp ps)"
proof (induction fp dp fs q out rule: walk_queue.induct)
  case (1 fp dp fs q out)
  note wf = \<open>wf_fs fs\<close> and ok = \<open>queue_ok fs root q\<close>
  show ?case
  proof (cases q)
    case Nil
    then show ?thesis by (subst walk_queue.simps) simp
  next
    case (Cons item rest)
    obtain d ps where item: "item = (d, ps)" by (cases item)
    let ?c = "comps root"
    from ok Cons item have d: "d = foldl path_join root ps" "d \<noteq> []" "comps d = ?c @ ps"
        "stat_c fs (?c @ ps) = Some Dir"
      by (auto simp: queue_ok_def)
    then have "stat fs d = Some Dir" by (simp add: stat_def)
    from listdir_Dir[OF this] obtain names where
      ld: "listdir fs d = Inr names" and dn: "distinct names"
      and sn: "set names = {n. valid_name n \<and> comps d @ [n] \<in> fst ` set fs}" by blast
    let ?isf = "\<lambda>n. isfile fs (path_join d n)"
    let ?F = "map (\<lambda>n. ps @ [n]) (filter (\<lambda>n. ?isf n \<and> \<not> value_match_regexes n fp) names)"
    let ?D = "filter (\<lambda>n. \<not> ?isf n \<and> \<not> value_match_regexes n dp) names"
    let ?q' = "rest @ found_dirs dp fs d ps names"
    let ?out' = "out @ found_files fp fs d ps names"
    have fold: "(?out', ?q') = foldl (scan_name fp dp fs d ps) (out, rest) names"
      by (simp add: foldl_scan_name)
    have ff: "found_files fp fs d ps names = map (file_entry_of root) ?F"
      by (simp add: found_files_def file_entry_of_def d(1) comp_def)
    have snd_new: "map snd (found_dirs dp fs d ps names) = map (\<lambda>n. ps @ [n]) ?D"
      by (simp add: found_dirs_def comp_def)
    \<comment> \<open>what the names are, in a well-formed table\<close>
    have file_iff: "\<And>n. (n \<in> set names \<and> ?isf n) = (\<exists>b. stat_c fs (?c @ ps @ [n]) = Some (File b))"
    proof -
      fix n
      show "(n \<in> set names \<and> ?isf n) = (\<exists>b. stat_c fs (?c @ ps @ [n]) = Some (File b))"
      proof
        assume "n \<in> set names \<and> ?isf n"
        then show "\<exists>b. stat_c fs (?c @ ps @ [n]) = Some (File b)"
          using sn isfile_join[of n fs d] d(3) by auto
      next
        assume f: "\<exists>b. stat_c fs (?c @ ps @ [n]) = Some (File b)"
        then have key: "?c @ ps @ [n] \<in> fst ` set fs"
          using stat_c_key[of "?c @ ps @ [n]" fs] by auto
        then have "valid_name n" using wf_fs_key(2)[OF wf key] by simp
        with key f show "n \<in> set names \<and> ?isf n"
          using sn isfile_join[of n fs d] d(3) by auto
      qed
    qed
    have dir_iff: "\<And>n. (n \<in> set names \<and> \<not> ?isf n) = (stat_c fs (?c @ ps @ [n]) = Some Dir)"
    proof -
      fix n
      show "(n \<in> set names \<and> \<not> ?isf n) = (stat_c fs (?c @ ps @ [n]) = Some Dir)"
      proof
        assume a: "n \<in> set names \<and> \<not> ?isf n"
        then have key: "?c @ ps @ [n] \<in> fst ` set fs" and v: "valid_name n" using sn d(3) by auto
        then have "stat_c fs (?c @ ps @ [n]) \<noteq> None" using stat_c_key[of "?c @ ps @ [n]" fs] by simp
        then obtain e where e: "stat_c fs (?c @ ps @ [n]) = Some e" by auto
        with a v have "\<not> (\<exists>b. e = File b)" using isfile_join[of n fs d] d(3) by auto
        then have "e = Dir" by (cases e) auto
        with e show "stat_c fs (?c @ ps @ [n]) = Some Dir" by simp
      next
        assume f: "stat_c fs (?c @ ps @ [n]) = Some Dir"
        then have key: "?c @ ps @ [n] \<in> fst ` set fs"
          using stat_c_key[of "?c @ ps @ [n]" fs] by auto
        then have "valid_name n" using wf_fs_key(2)[OF wf key] by simp
        with key f show "n \<in> set names \<and> \<not> ?isf n"
          using sn isfile_join[of n fs d] d(3) by auto
      qed
    qed
    \<comment> \<open>the invariant of the new queue\<close>
    have old_snd: "snd ` set q = insert ps (snd ` set rest)" using Cons item by auto
    have ps_notin: "ps \<notin> snd ` set rest" using ok Cons item by (auto simp: queue_ok_def)
    have incomp: "\<And>a b. a \<in> snd ` set q \<Longrightarrow> b \<in> snd ` set q \<Longrightarrow> a \<noteq> b \<Longrightarrow> \<not> prefix a b"
      using ok by (auto simp: queue_ok_def)
    have rest_vs_ps: "\<And>a. a \<in> snd ` set rest \<Longrightarrow> \<not> prefix a ps \<and> \<not> prefix ps a"
      using incomp old_snd ps_notin by (metis insertCI)
    have ok': "queue_ok fs root ?q'"
      unfolding queue_ok_def
    proof (intro conjI ballI impI)
      fix it assume it: "it \<in> set ?q'"
      show "fst it = foldl path_join root (snd it)" "fst it \<noteq> []"
         "comps (fst it) = comps root @ snd it" "stat_c fs (comps root @ snd it) = Some Dir"
      proof -
        from it consider "it \<in> set rest" | n where "n \<in> set ?D" "it = (path_join d n, ps @ [n])"
          by (auto simp: found_dirs_def)
        then have "fst it = foldl path_join root (snd it) \<and> fst it \<noteq> []
             \<and> comps (fst it) = comps root @ snd it \<and> stat_c fs (comps root @ snd it) = Some Dir"
        proof cases
          case 1
          then show ?thesis using ok Cons by (auto simp: queue_ok_def)
        next
          case 2
          then have nn: "n \<in> set names" "\<not> ?isf n" by auto
          then have v: "valid_name n" using sn by auto
          have "stat_c fs (?c @ ps @ [n]) = Some Dir" using dir_iff[of n] nn by simp
          then show ?thesis
            using 2 v d by (simp add: comps_path_join_name path_join_name_nonempty)
        qed
        then show "fst it = foldl path_join root (snd it)" "fst it \<noteq> []"
         "comps (fst it) = comps root @ snd it" "stat_c fs (comps root @ snd it) = Some Dir"
          by auto
      qed
    next
      have "distinct (map snd rest)" using ok Cons by (auto simp: queue_ok_def)
      moreover have "distinct (map (\<lambda>n. ps @ [n]) ?D)" using dn by (auto simp: distinct_map inj_on_def)
      moreover have "set (map snd rest) \<inter> set (map (\<lambda>n. ps @ [n]) ?D) = {}"
        using rest_vs_ps by force
      ultimately show "distinct (map snd ?q')" by (simp add: snd_new)
    next
      fix a b assume a: "a \<in> snd ` set ?q'" and b: "b \<in> snd ` set ?q'" and ne: "a \<noteq> b"
      have mem: "\<And>x. x \<in> snd ` set ?q' \<Longrightarrow> x \<in> snd ` set rest \<or> (\<exists>n. x = ps @ [n])"
        by (auto simp: found_dirs_def)
      show "\<not> prefix a b"
      proof
        assume pab: "prefix a b"
        from mem[OF a] mem[OF b] show False
        proof (elim disjE exE)
          assume "a \<in> snd ` set rest" "b \<in> snd ` set rest"
          then show False using incomp[of a b] old_snd ne pab by auto
        next
          fix n assume ar: "a \<in> snd ` set rest" and bn: "b = ps @ [n]"
          from pab bn have "prefix a ps \<or> a = ps @ [n]" by (auto simp: prefix_snoc)
          with ne bn rest_vs_ps[OF ar] show False by auto
        next
          fix n assume an: "a = ps @ [n]" and br: "b \<in> snd ` set rest"
          from pab an have "prefix ps b" by (metis append_prefixD)
          with rest_vs_ps[OF br] show False by simp
        next
          fix n m assume "a = ps @ [n]" "b = ps @ [m]"
          with pab ne show False by (auto simp: prefix_def)
        qed
      qed
    qed
    from "1.IH"[OF Cons item[symmetric] ld fold wf ok'] obtain rels' where
      r1: "walk_queue fp dp fs ?q' ?out' = Inr (?out' @ map (file_entry_of root) rels')"
      and r2: "distinct rels'"
      and r3: "set rels' = (\<Union>ps\<in>snd ` set ?q'. wanted_below fs ?c fp dp ps)" by blast
    have wq: "walk_queue fp dp fs q out = walk_queue fp dp fs ?q' ?out'"
      by (subst walk_queue.simps) (simp add: Cons item ld foldl_scan_name)
    have res: "walk_queue fp dp fs q out = Inr (out @ map (file_entry_of root) (?F @ rels'))"
      using wq r1 ff by simp
    have setF: "set ?F = {ps @ [n] | n. (\<exists>b. stat_c fs (?c @ ps @ [n]) = Some (File b))
                                 \<and> \<not> value_match_regexes n fp}"
      by (auto simp flip: file_iff)
    have setD: "set ?D = {n. stat_c fs (?c @ ps @ [n]) = Some Dir \<and> \<not> value_match_regexes n dp}"
      by (auto simp flip: dir_iff)
    have snd_q': "snd ` set ?q' = snd ` set rest \<union> (\<lambda>n. ps @ [n]) ` set ?D"
      by (auto simp: found_dirs_def image_Un image_image)
    have split: "wanted_below fs ?c fp dp ps = set ?F \<union> (\<Union>n\<in>set ?D. wanted_below fs ?c fp dp (ps @ [n]))"
      unfolding setF setD by (rule wanted_below_split[OF wf])
    have U: "(\<Union>a\<in>snd ` set ?q'. wanted_below fs ?c fp dp a)
               = (\<Union>a\<in>snd ` set rest. wanted_below fs ?c fp dp a)
                 \<union> (\<Union>n\<in>set ?D. wanted_below fs ?c fp dp (ps @ [n]))"
      by (rule UN_image_split[OF snd_q'])
    have sets: "set (?F @ rels') = (\<Union>ps\<in>snd ` set q. wanted_below fs ?c fp dp ps)"
      by (rule walked_sets[OF r3 U split old_snd refl refl])
    have "distinct ?F" using dn by (auto simp: distinct_map inj_on_def)
    moreover have "set ?F \<inter> set rels' = {}"
    proof (rule ccontr)
      assume "set ?F \<inter> set rels' \<noteq> {}"
      then obtain rel where rF: "rel \<in> set ?F" and rr: "rel \<in> set rels'" by auto
      from rF obtain n where n: "rel = ps @ [n]" "n \<in> set names" "?isf n" by auto
      from rr r3 obtain a where a: "a \<in> snd ` set ?q'" "rel \<in> wanted_below fs ?c fp dp a" by auto
      then have sp: "strict_prefix a (ps @ [n])" using wanted_below_prefix n by blast
      then have pa: "prefix a ps" by (auto simp: strict_prefix_def prefix_snoc)
      from a(1) snd_q' consider "a \<in> snd ` set rest" | m where "a = ps @ [m]" by auto
      then show False
      proof cases
        case 1
        with rest_vs_ps pa show False by blast
      next
        case 2
        with pa show False by (auto simp: prefix_def)
      qed
    qed
    ultimately have "distinct (?F @ rels')" using r2 by simp
    with res sets show ?thesis by blast
  qed
qed


lemma comps_foldl_join:
  "\<forall>n\<in>set rel. valid_name n \<Longrightarrow> comps (foldl path_join a rel) = comps a @ rel"
  by (induction rel arbitrary: a) (auto simp: comps_path_join_name)

lemma wanted_below_root: "wanted_below fs (comps src_path) fp dp [] = wanted_files fs src_path fp dp"
  by (auto simp: wanted_below_def wanted_files_def)

lemma wanted_files_valid:
  assumes "wf_fs fs" "rel \<in> wanted_files fs src_path fp dp"
  shows "\<forall>n\<in>set rel. valid_name n"
proof -
  from assms(2) obtain b where "rel \<noteq> []" "stat_c fs (comps src_path @ rel) = Some (File b)"
    by (auto simp: wanted_files_def)
  then have "comps src_path @ rel \<in> fst ` set fs"
    using stat_c_key[of "comps src_path @ rel" fs] by auto
  from wf_fs_key(2)[OF assms(1) this] show ?thesis by simp
qed

text \<open>
  C1. On a well-formed file system and a root that is a directory,
  \<open>find_files_in_subdir\<close> returns normally, and its output lists, each exactly
  once, the files below the root whose own name matches no file pattern and none
  of whose directories below the root matches a directory pattern; each is paired
  with its path relative to the root. The patterns are applied to single names.
\<close>

theorem find_files_in_subdir_exact:
  assumes "wf_fs fs" and "isdir fs src_path"
  shows "\<exists>rels.
     find_files_in_subdir fs src_path ignore_file_patterns ignore_dir_patterns
       = Inr (map (file_entry_of src_path) rels)
     \<and> distinct rels
     \<and> distinct (map fst (map (file_entry_of src_path) rels))
     \<and> set rels = wanted_files fs src_path
         (case ignore_file_patterns of None \<Rightarrow> IGNORE_FILE_PATTERNS | Some ps \<Rightarrow> ps)
         (case ignore_dir_patterns of None \<Rightarrow> IGNORE_DIR_PATTERNS | Some ps \<Rightarrow> ps)"
proof -
  let ?fp = "case ignore_file_patterns of None \<Rightarrow> IGNORE_FILE_PATTERNS | Some ps \<Rightarrow> ps"
  let ?dp = "case ignore_dir_patterns of None \<Rightarrow> IGNORE_DIR_PATTERNS | Some ps \<Rightarrow> ps"
  from assms(2) have root: "src_path \<noteq> []" "stat_c fs (comps src_path) = Some Dir"
    by (auto simp: isdir_def stat_def split: if_splits)
  then have ok: "queue_ok fs src_path [(src_path, [])]"
    by (simp add: queue_ok_def)
  from walk_queue_exact[OF assms(1) ok, of ?fp ?dp "[]"] obtain rels where
    r: "walk_queue ?fp ?dp fs [(src_path, [])] [] = Inr (map (file_entry_of src_path) rels)"
    "distinct rels" "set rels = wanted_files fs src_path ?fp ?dp"
    by (auto simp: wanted_below_root)
  have "inj_on (\<lambda>rel. fst (file_entry_of src_path rel)) (set rels)"
  proof (rule inj_onI)
    fix x y assume x: "x \<in> set rels" and y: "y \<in> set rels"
      and eq: "fst (file_entry_of src_path x) = fst (file_entry_of src_path y)"
    from x y r(3) have "\<forall>n\<in>set x. valid_name n" "\<forall>n\<in>set y. valid_name n"
      using wanted_files_valid[OF assms(1)] by blast+
    then have c: "comps (foldl path_join src_path x) = comps src_path @ x"
      "comps (foldl path_join src_path y) = comps src_path @ y"
      by (simp_all add: comps_foldl_join)
    from eq have "foldl path_join src_path x = foldl path_join src_path y"
      by (simp add: file_entry_of_def)
    then have "comps src_path @ x = comps src_path @ y" using c by metis
    then show "x = y" by simp
  qed
  then have "distinct (map fst (map (file_entry_of src_path) rels))"
    using r(2) by (simp add: distinct_map comp_def)
  with r show ?thesis by (auto simp: find_files_in_subdir_def Let_def)
qed

text \<open>A tree with an ignored file, a compiled file, a cache directory and a nested hidden directory.\<close>

definition fs_tree :: filesystem where
  "fs_tree =
     [([''r''], Dir), ([''r'', ''server''], Dir),
      ([''r'', ''server'', ''a.py''], File ''a''),
      ([''r'', ''server'', ''.env''], File ''e''),
      ([''r'', ''server'', ''b.pyc''], File ''b''),
      ([''r'', ''server'', ''__pycache__''], Dir),
      ([''r'', ''server'', ''__pycache__'', ''c.py''], File ''c''),
      ([''r'', ''server'', ''sub''], Dir),
      ([''r'', ''server'', ''sub'', ''d.py''], File ''d''),
      ([''r'', ''server'', ''sub'', ''.git''], Dir),
      ([''r'', ''server'', ''sub'', ''.git'', ''e.py''], File ''e'')]"

theorem find_files_in_subdir_exact_witness:
  "wf_fs fs_tree \<and> isdir fs_tree ''/r/server''
   \<and> find_files_in_subdir fs_tree ''/r/server'' None None
       = Inr [(''/r/server/a.py'', ''a.py''), (''/r/server/sub/d.py'', ''sub/d.py'')]
   \<and> (\<exists>rels.
         find_files_in_subdir fs_tree ''/r/server'' None None
           = Inr (map (file_entry_of ''/r/server'') rels)
         \<and> distinct rels
         \<and> distinct (map fst (map (file_entry_of ''/r/server'') rels))
         \<and> set rels = wanted_files fs_tree ''/r/server'' IGNORE_FILE_PATTERNS IGNORE_DIR_PATTERNS)"
proof -
  have wf: "wf_fs fs_tree" by code_simp
  have dir: "isdir fs_tree ''/r/server''" by code_simp
  have run: "find_files_in_subdir fs_tree ''/r/server'' None None
       = Inr [(''/r/server/a.py'', ''a.py''), (''/r/server/sub/d.py'', ''sub/d.py'')]"
    by code_simp
  show ?thesis
    using find_files_in_subdir_exact[OF wf dir, of None None] wf dir run by simp
qed

subsection \<open>The download step\<close>

lemma download_platform_returns:
  "download_platform E dl pn pinfo infos w = (Inr x, w') \<Longrightarrow> x = infos @ [zip_file_info E pn pinfo]"
  by (auto simp: download_platform_def Let_def andthen_def ret_def raise_def
      split: if_splits sum.splits prod.splits)

lemma download_platforms_returns:
  "download_platforms E dl ps infos w = (Inr x, w') \<Longrightarrow>
   x = infos @ map (\<lambda>(pn, pinfo). zip_file_info E pn pinfo) ps"
proof (induction ps arbitrary: infos w)
  case Nil
  then show ?case by (simp add: ret_def)
next
  case (Cons p ps)
  obtain pn pinfo where p: "p = (pn, pinfo)" by (cases p)
  from Cons.prems obtain y w1 where
    s1: "download_platform E dl pn pinfo infos w = (Inr y, w1)"
    and s2: "download_platforms E dl ps y w1 = (Inr x, w')"
    by (auto simp: p split: sum.splits prod.splits)
  from download_platform_returns[OF s1] Cons.IH[OF s2] show ?case by (simp add: p)
qed

lemma download_items_returns:
  "download_items E dl items infos w = (Inr x, w') \<Longrightarrow>
   x = infos @ concat (map (\<lambda>(item_name, item_info).
        map (\<lambda>(pn, pinfo). zip_file_info E pn pinfo) item_info) items)"
proof (induction items arbitrary: infos w)
  case Nil
  then show ?case by (simp add: ret_def)
next
  case (Cons it items)
  obtain nm ps where it: "it = (nm, ps)" by (cases it)
  from Cons.prems obtain y w1 where
    s1: "download_platforms E dl ps infos w = (Inr y, w1)"
    and s2: "download_items E dl items y w1 = (Inr x, w')"
    by (auto simp: it split: sum.splits prod.splits)
  from download_platforms_returns[OF s1] Cons.IH[OF s2] show ?case by (simp add: it)
qed

lemma checksum_Inr_is_file:
  "calculate_file_checksum E fs p alg n = Inr c \<Longrightarrow> \<exists>b. stat fs p = Some (File b)"
  by (auto simp: calculate_file_checksum_closed read_file_def
      split: option.splits sum.splits entry.splits if_splits)

lemma os_remove_file:
  "stat (files w) p = Some (File b) \<Longrightarrow>
   \<exists>w1. os_remove p w = (Inr (), w1) \<and> stat (files w1) p = None \<and> requested w1 = requested w"
proof -
  assume a: "stat (files w) p = Some (File b)"
  then have ne: "p \<noteq> []" "comps p \<noteq> []" by (auto simp: stat_def stat_c_def split: if_splits)
  have "map_of (filter (\<lambda>kv. fst kv \<noteq> comps p) (files w)) (comps p) = None"
    by (auto simp: map_of_eq_None_iff)
  with a ne show ?thesis by (simp add: os_remove_def ret_def stat_def stat_c_def)
qed

text \<open>
  Externals for running the packager on small worlds: the digest of a byte string
  is the string itself, each URL of the table serves its declared checksum as
  the body, and an archive is the concatenation of its members.
\<close>

definition E_pkg :: externals where
  "E_pkg =
     \<lparr>hashlib = (\<lambda>a. if a = ''sha256'' then Some (\<lambda>b. b) else None),
      url_content = (\<lambda>u. if u = url usd_24_03_windows then Some (checksum usd_24_03_windows)
                          else if u = url usd_24_03_linux then Some (checksum usd_24_03_linux)
                          else None),
      zip_container = (\<lambda>ms. concat (map (\<lambda>(n, b). n @ ''='' @ b @ '';'') ms)),
      ADDON_NAME = ''usd'', ADDON_VERSION = ''1.0'', ADDON_CLIENT_DIR = ''ayon_usd'',
      script_abspath = ''/r/create_package.py''\<rparr>"

text \<open>A downloads directory with a valid Windows archive and a stale Linux archive.\<close>

definition w_downloads :: world where
  "w_downloads =
     \<lparr>files = [([''r''], Dir), ([''r'', ''downloads''], Dir),
               ([''r'', ''downloads'', ''usd-24.03_win64_py39.zip''], File (checksum usd_24_03_windows)),
               ([''r'', ''downloads'', ''usd-24.03_linux_py39.zip''], File ''stale'')],
      requested = []\<rparr>"

subsection \<open>Copying into the output\<close>

text \<open>A table in which every proper prefix of a key is a directory.\<close>

definition tree_like :: "filesystem \<Rightarrow> bool" where
  "tree_like fs =
     list_all (\<lambda>k. list_all (\<lambda>p. stat_c fs p = Some Dir) (butlast (prefixes k))) (map fst fs)"

lemma tree_like_prefix:
  assumes "tree_like fs" "stat_c fs k \<noteq> None" "strict_prefix p k"
  shows "stat_c fs p = Some Dir"
proof -
  from assms(3) have "k \<noteq> []" by auto
  with assms(2) have "k \<in> fst ` set fs" using stat_c_key[of k fs] by blast
  with assms(1) have "list_all (\<lambda>p. stat_c fs p = Some Dir) (butlast (prefixes k))"
    by (auto simp: tree_like_def list_all_iff)
  with assms(3) set_butlast_prefixes[of k] show ?thesis by (auto simp: list_all_iff)
qed

lemma wf_fs_tree_like: "wf_fs fs \<Longrightarrow> tree_like fs"
  by (auto simp: wf_fs_def tree_like_def list_all_iff)

lemma mkdir_c_exists: "stat_c (files w) c \<noteq> None \<Longrightarrow> mkdir_c c w = (Inl FileExistsError, w)"
  by (simp add: mkdir_c_def raise_def)

lemma makedirs_rev_exists:
  assumes "tree_like (files w)" "stat_c (files w) (rev rc) \<noteq> None"
  shows "makedirs_rev rc w = (Inl FileExistsError, w)"
proof (cases rc)
  case Nil
  then show ?thesis by (simp add: raise_def)
next
  case (Cons n rparent)
  have m: "mkdir_c (rev (n # rparent)) w = (Inl FileExistsError, w)"
    using assms(2) Cons mkdir_c_exists[of w "rev rc"] by simp
  show ?thesis
  proof (cases "rparent = []")
    case True
    with m Cons show ?thesis by (simp add: ret_def)
  next
    case False
    have "strict_prefix (rev rparent) (rev rc)" using Cons by (auto simp: strict_prefix_def)
    from tree_like_prefix[OF assms(1) assms(2) this]
    have "stat_c (files w) (rev rparent) \<noteq> None" by simp
    with m Cons show ?thesis by (auto simp: ret_def)
  qed
qed

lemma os_makedirs_exists:
  assumes "tree_like (files w)" "isdir (files w) p"
  shows "os_makedirs p w = (Inl FileExistsError, w)"
proof -
  from assms(2) have "p \<noteq> []" "stat_c (files w) (rev (rev (comps p))) \<noteq> None"
    by (auto simp: isdir_def stat_def split: if_splits)
  with makedirs_rev_exists[OF assms(1), of "rev (comps p)"] show ?thesis
    by (simp add: os_makedirs_def)
qed

text \<open>
  A destination without a directory part: \<open>os.makedirs('')\<close> raises
  \<open>FileNotFoundError\<close>, which \<open>contextlib.suppress(Exception)\<close> drops as well, and
  the copy succeeds. Output construction builds no such destination.
\<close>

lemma bare_destination_not_found_dropped:
  "dirname ''b.txt'' = []
   \<and> os_makedirs (dirname ''b.txt'') \<lparr>files = [([''a.txt''], File ''x'')], requested = []\<rparr>
       = (Inl FileNotFoundError, \<lparr>files = [([''a.txt''], File ''x'')], requested = []\<rparr>)
   \<and> safe_copy_file ''a.txt'' ''b.txt'' \<lparr>files = [([''a.txt''], File ''x'')], requested = []\<rparr>
       = (Inr (), \<lparr>files = [([''a.txt''], File ''x''), ([''b.txt''], File ''x'')], requested = []\<rparr>)"
  by code_simp

text \<open>A destination directory that exists, a source that exists and one that does not.\<close>

definition w_copy :: world where
  "w_copy = \<lparr>files = [([''src''], Dir), ([''src'', ''a.py''], File ''a''), ([''out''], Dir)],
             requested = []\<rparr>"

subsection \<open>Runs of \<open>main\<close> on small worlds\<close>

text \<open>An addon source with a server directory and verified downloads, and no client directory.\<close>

definition w_noclient :: world where
  "w_noclient =
     \<lparr>files = [([''r''], Dir), ([''r'', ''package.py''], File ''p''),
               ([''r'', ''server''], Dir), ([''r'', ''server'', ''s.py''], File ''s''),
               ([''r'', ''downloads''], Dir),
               ([''r'', ''downloads'', ''usd-24.03_win64_py39.zip''], File (checksum usd_24_03_windows)),
               ([''r'', ''downloads'', ''usd-24.03_linux_py39.zip''], File (checksum usd_24_03_linux))],
      requested = []\<rparr>"

text \<open>
  C10. Without a client directory \<open>zip_client_side\<close> returns at once and changes
  nothing, but \<open>main\<close> does not reach it: \<open>_fill_client_version\<close> opens
  \<open>client/<ADDON_CLIENT_DIR>/version.py\<close> for writing and raises \<open>FileNotFoundError\<close>.
\<close>

theorem main_without_client_dir:
  "isdir (files w_noclient) ''/r/client'' = False
   \<and> zip_client_side E_pkg ''/r/package/usd/1.0'' ''/r'' w_noclient = (Inr (), w_noclient)
   \<and> fst (main E_pkg None False False w_noclient) = Inl FileNotFoundError
   \<and> fst (fill_client_version E_pkg ''/r'' w_noclient) = Inl FileNotFoundError"
  by code_simp

text \<open>
  An addon source whose output directory already holds the target version 1.0,
  another version 0.9 of the same addon and another addon.
\<close>

definition w_versions :: world where
  "w_versions =
     \<lparr>files = [([''r''], Dir), ([''r'', ''package.py''], File ''p''),
               ([''r'', ''server''], Dir), ([''r'', ''server'', ''s.py''], File ''s''),
               ([''r'', ''client''], Dir), ([''r'', ''client'', ''ayon_usd''], Dir),
               ([''r'', ''downloads''], Dir),
               ([''r'', ''downloads'', ''usd-24.03_win64_py39.zip''], File (checksum usd_24_03_windows)),
               ([''r'', ''downloads'', ''usd-24.03_linux_py39.zip''], File (checksum usd_24_03_linux)),
               ([''r'', ''package''], Dir), ([''r'', ''package'', ''usd''], Dir),
               ([''r'', ''package'', ''usd'', ''1.0''], Dir),
               ([''r'', ''package'', ''usd'', ''0.9''], Dir),
               ([''r'', ''package'', ''usd'', ''0.9'', ''keep.txt''], File ''k''),
               ([''r'', ''package'', ''other''], Dir),
               ([''r'', ''package'', ''other'', ''data.txt''], File ''d'')],
      requested = []\<rparr>"

text \<open>
  C2. The purge removes the whole output directory: after a successful run the
  other version and the other addon under the output directory are gone.
\<close>

theorem purge_removes_other_versions:
  "isdir (files w_versions) ''/r/package/usd/1.0''
   \<and> isfile (files w_versions) ''/r/package/usd/0.9/keep.txt''
   \<and> isfile (files w_versions) ''/r/package/other/data.txt''
   \<and> (case main E_pkg None True False w_versions of
         (r, w') \<Rightarrow> r = Inr ()
            \<and> isdir (files w') ''/r/package/usd/1.0''
            \<and> stat (files w') ''/r/package/usd/0.9/keep.txt'' = None
            \<and> stat (files w') ''/r/package/usd/0.9'' = None
            \<and> stat (files w') ''/r/package/other/data.txt'' = None)"
  by code_simp

section \<open>How the operations change the file system\<close>

subsection \<open>The primitive operations\<close>

lemma tree_like_iff:
  "tree_like fs = (\<forall>k p. stat_c fs k \<noteq> None \<and> strict_prefix p k \<longrightarrow> stat_c fs p = Some Dir)"
proof
  assume "tree_like fs"
  then show "\<forall>k p. stat_c fs k \<noteq> None \<and> strict_prefix p k \<longrightarrow> stat_c fs p = Some Dir"
    using tree_like_prefix by blast
next
  assume a: "\<forall>k p. stat_c fs k \<noteq> None \<and> strict_prefix p k \<longrightarrow> stat_c fs p = Some Dir"
  show "tree_like fs"
    unfolding tree_like_def list_all_iff
  proof (intro ballI)
    fix k p assume k: "k \<in> set (map fst fs)" and p: "p \<in> set (butlast (prefixes k))"
    from p have sp: "strict_prefix p k" using set_butlast_prefixes[of k] by auto
    then have "k \<noteq> []" by auto
    with k have "stat_c fs k \<noteq> None" using stat_c_key[of k fs] by auto
    with a sp show "stat_c fs p = Some Dir" by blast
  qed
qed

lemma map_of_filter_key:
  "map_of (filter (\<lambda>kv. P (fst kv)) fs) q = (if P q then map_of fs q else None)"
  by (induction fs) auto

lemma stat_c_update:
  "c \<noteq> [] \<Longrightarrow> stat_c (AList.update c e fs) q = (if q = c then Some e else stat_c fs q)"
  by (simp add: stat_c_def update_conv')

lemma stat_c_delete:
  "c \<noteq> [] \<Longrightarrow> stat_c (filter (\<lambda>kv. fst kv \<noteq> c) fs) q = (if q = c then None else stat_c fs q)"
  using map_of_filter_key[of "\<lambda>k. k \<noteq> c" fs] by (simp add: stat_c_def)


lemma parent_error_None: "(parent_error fs c = None) = (stat_c fs (butlast c) = Some Dir)"
  by (auto simp: parent_error_def split: option.splits entry.splits)

lemma mkdir_c_Inl: "mkdir_c c w = (Inl e, w') \<Longrightarrow> w' = w"
  by (auto simp: mkdir_c_def raise_def ret_def split: if_splits option.splits)

lemma mkdir_c_Inr:
  assumes "mkdir_c c w = (Inr u, w')"
  shows "c \<noteq> []" and "stat_c (files w) c = None" and "stat_c (files w) (butlast c) = Some Dir"
    and "\<And>q. stat_c (files w') q = (if q = c then Some Dir else stat_c (files w) q)"
    and "requested w' = requested w"
proof -
  from assms have a: "stat_c (files w) c = None" "parent_error (files w) c = None"
    "w' = w\<lparr>files := AList.update c Dir (files w)\<rparr>"
    by (auto simp: mkdir_c_def raise_def ret_def split: if_splits option.splits)
  show c: "c \<noteq> []" using a(1) by (auto simp: stat_c_def)
  show "stat_c (files w) c = None" by (rule a(1))
  show "stat_c (files w) (butlast c) = Some Dir" using a(2) by (simp add: parent_error_None)
  show "\<And>q. stat_c (files w') q = (if q = c then Some Dir else stat_c (files w) q)"
    using c by (simp add: a(3) stat_c_update)
  show "requested w' = requested w" by (simp add: a(3))
qed

lemma write_file_Inl: "write_file p b w = (Inl e, w') \<Longrightarrow> w' = w"
  by (auto simp: write_file_def raise_def ret_def split: if_splits option.splits)

lemma write_file_Inr:
  assumes "write_file p b w = (Inr u, w')"
  shows "p \<noteq> []" and "comps p \<noteq> []" and "stat_c (files w) (comps p) \<noteq> Some Dir"
    and "stat_c (files w) (butlast (comps p)) = Some Dir"
    and "\<And>q. stat_c (files w') q = (if q = comps p then Some (File b) else stat_c (files w) q)"
    and "requested w' = requested w"
proof -
  from assms have a: "p \<noteq> []" "stat_c (files w) (comps p) \<noteq> Some Dir"
    "parent_error (files w) (comps p) = None"
    "w' = w\<lparr>files := AList.update (comps p) (File b) (files w)\<rparr>"
    by (auto simp: write_file_def raise_def ret_def split: if_splits option.splits)
  show "p \<noteq> []" by (rule a(1))
  show c: "comps p \<noteq> []" using a(2) by (auto simp: stat_c_def)
  show "stat_c (files w) (comps p) \<noteq> Some Dir" by (rule a(2))
  show "stat_c (files w) (butlast (comps p)) = Some Dir" using a(3) by (simp add: parent_error_None)
  show "\<And>q. stat_c (files w') q = (if q = comps p then Some (File b) else stat_c (files w) q)"
    using c by (simp add: a(4) stat_c_update)
  show "requested w' = requested w" by (simp add: a(4))
qed

lemma os_remove_Inl: "os_remove p w = (Inl e, w') \<Longrightarrow> w' = w"
  by (auto simp: os_remove_def raise_def ret_def split: option.splits entry.splits)

lemma os_remove_Inr:
  assumes "os_remove p w = (Inr u, w')"
  shows "comps p \<noteq> []" and "\<exists>b. stat_c (files w) (comps p) = Some (File b)"
    and "\<And>q. stat_c (files w') q = (if q = comps p then None else stat_c (files w) q)"
    and "requested w' = requested w"
proof -
  from assms obtain b where a: "stat (files w) p = Some (File b)"
    "w' = w\<lparr>files := filter (\<lambda>kv. fst kv \<noteq> comps p) (files w)\<rparr>"
    by (auto simp: os_remove_def raise_def ret_def split: option.splits entry.splits)
  then have s: "stat_c (files w) (comps p) = Some (File b)" by (auto simp: stat_def split: if_splits)
  show c: "comps p \<noteq> []" using s by (auto simp: stat_c_def)
  show "\<exists>b. stat_c (files w) (comps p) = Some (File b)" using s by blast
  show "\<And>q. stat_c (files w') q = (if q = comps p then None else stat_c (files w) q)"
    using c by (simp add: a(2) stat_c_delete)
  show "requested w' = requested w" by (simp add: a(2))
qed




subsection \<open>Runs that only add and overwrite\<close>

text \<open>
  \<open>evolve F D fs fs'\<close>: the table stays tree-like, every directory stays a
  directory, and outside \<open>F\<close> every entry is what it was, except that a missing
  entry in \<open>D\<close> may have become a directory.
\<close>

definition evolve :: "path set \<Rightarrow> path set \<Rightarrow> filesystem \<Rightarrow> filesystem \<Rightarrow> bool" where
  "evolve F D fs fs' =
     ((tree_like fs \<longrightarrow> tree_like fs')
      \<and> (\<forall>q. stat_c fs q = Some Dir \<longrightarrow> stat_c fs' q = Some Dir)
      \<and> (\<forall>q. q \<notin> F \<longrightarrow> stat_c fs' q = stat_c fs q
                           \<or> (q \<in> D \<and> stat_c fs q = None \<and> stat_c fs' q = Some Dir)))"

definition evolves :: "path set \<Rightarrow> path set \<Rightarrow> (world \<Rightarrow> 'a result) \<Rightarrow> bool" where
  "evolves F D m = (\<forall>w r w'. m w = (r, w') \<longrightarrow> evolve F D (files w) (files w'))"

lemma evolve_refl: "evolve F D fs fs"
  by (simp add: evolve_def)

lemma evolve_trans: "evolve F D fs fs' \<Longrightarrow> evolve F D fs' fs'' \<Longrightarrow> evolve F D fs fs''"
  unfolding evolve_def by (intro conjI allI impI; metis option.distinct(1))

lemma evolve_mono: "evolve F D fs fs' \<Longrightarrow> F \<subseteq> F' \<Longrightarrow> D \<subseteq> D' \<Longrightarrow> evolve F' D' fs fs'"
  unfolding evolve_def by (intro conjI allI impI; blast)

lemma evolvesI: "(\<And>w r w'. m w = (r, w') \<Longrightarrow> evolve F D (files w) (files w')) \<Longrightarrow> evolves F D m"
  by (simp add: evolves_def)

lemma evolvesD: "evolves F D m \<Longrightarrow> m w = (r, w') \<Longrightarrow> evolve F D (files w) (files w')"
  by (simp add: evolves_def)

lemma evolves_mono: "evolves F D m \<Longrightarrow> F \<subseteq> F' \<Longrightarrow> D \<subseteq> D' \<Longrightarrow> evolves F' D' m"
  unfolding evolves_def using evolve_mono by blast

lemma evolves_ret: "evolves F D (ret x)"
  by (simp add: evolves_def ret_def evolve_refl)

lemma evolves_raise: "evolves F D (raise e)"
  by (simp add: evolves_def raise_def evolve_refl)

lemma evolves_andthen:
  assumes "evolves F D m" "\<And>x. evolves F D (f x)"
  shows "evolves F D (andthen m f)"
proof (rule evolvesI)
  fix w r w' assume a: "andthen m f w = (r, w')"
  obtain r1 w1 where m: "m w = (r1, w1)" by (cases "m w")
  show "evolve F D (files w) (files w')"
  proof (cases r1)
    case (Inl e)
    with a m have "w' = w1" by (simp add: andthen_def)
    with evolvesD[OF assms(1) m] show ?thesis by simp
  next
    case (Inr x)
    with a m have "f x w1 = (r, w')" by (simp add: andthen_def)
    from evolve_trans[OF evolvesD[OF assms(1) m] evolvesD[OF assms(2) this]] show ?thesis .
  qed
qed

lemma evolves_if:
  "(\<And>w. c w \<Longrightarrow> evolves F D m) \<Longrightarrow> (\<And>w. \<not> c w \<Longrightarrow> evolves F D n) \<Longrightarrow>
   evolves F D (\<lambda>w. if c w then m w else n w)"
  unfolding evolves_def by (metis (full_types))

lemma mkdir_c_evolves: "evolves {} {c} (mkdir_c c)"
proof (rule evolvesI)
  fix w r w' assume a: "mkdir_c c w = (r, w')"
  show "evolve {} {c} (files w) (files w')"
  proof (cases r)
    case (Inl e)
    with a mkdir_c_Inl show ?thesis by (metis evolve_refl)
  next
    case (Inr u)
    note e = mkdir_c_Inr[OF a[unfolded Inr]]
    have t: "tree_like (files w) \<Longrightarrow> tree_like (files w')"
      unfolding tree_like_iff
    proof (intro allI impI)
      fix k q
      assume tl: "\<forall>k p. stat_c (files w) k \<noteq> None \<and> strict_prefix p k \<longrightarrow> stat_c (files w) p = Some Dir"
        and kq: "stat_c (files w') k \<noteq> None \<and> strict_prefix q k"
      have "stat_c (files w) q = Some Dir"
      proof (cases "k = c")
        case True
        with kq have "prefix q (butlast c)"
          by (metis e(1) prefix_snoc append_butlast_last_id strict_prefix_def)
        then have "q = butlast c \<or> strict_prefix q (butlast c)" by (auto simp: strict_prefix_def)
        with e(3) tl show ?thesis by (metis option.distinct(1))
      next
        case False
        with kq e(4)[of k] tl show ?thesis by auto
      qed
      then show "stat_c (files w') q = Some Dir" using e(4)[of q] by simp
    qed
    show ?thesis unfolding evolve_def using t e(2) e(4) by auto
  qed
qed

lemma write_file_evolves: "evolves {comps p} {} (write_file p b)"
proof (rule evolvesI)
  fix w r w' assume a: "write_file p b w = (r, w')"
  show "evolve {comps p} {} (files w) (files w')"
  proof (cases r)
    case (Inl e)
    with a write_file_Inl show ?thesis by (metis evolve_refl)
  next
    case (Inr u)
    note e = write_file_Inr[OF a[unfolded Inr]]
    let ?c = "comps p"
    have t: "tree_like (files w) \<Longrightarrow> tree_like (files w')"
      unfolding tree_like_iff
    proof (intro allI impI)
      fix k q
      assume tl: "\<forall>k p. stat_c (files w) k \<noteq> None \<and> strict_prefix p k \<longrightarrow> stat_c (files w) p = Some Dir"
        and kq: "stat_c (files w') k \<noteq> None \<and> strict_prefix q k"
      have d: "stat_c (files w) q = Some Dir"
      proof (cases "k = ?c")
        case True
        with kq have "prefix q (butlast ?c)"
          by (metis e(2) prefix_snoc append_butlast_last_id strict_prefix_def)
        then have "q = butlast ?c \<or> strict_prefix q (butlast ?c)" by (auto simp: strict_prefix_def)
        with e(4) tl show ?thesis by (metis option.distinct(1))
      next
        case False
        with kq e(5)[of k] tl show ?thesis by auto
      qed
      with e(3) have "q \<noteq> ?c" by auto
      with d show "stat_c (files w') q = Some Dir" using e(5)[of q] by simp
    qed
    show ?thesis unfolding evolve_def using t e(3) e(5) by auto
  qed
qed

lemma os_remove_evolves: "evolves {comps p} {} (os_remove p)"
proof (rule evolvesI)
  fix w r w' assume a: "os_remove p w = (r, w')"
  show "evolve {comps p} {} (files w) (files w')"
  proof (cases r)
    case (Inl e)
    with a os_remove_Inl show ?thesis by (metis evolve_refl)
  next
    case (Inr u)
    note e = os_remove_Inr[OF a[unfolded Inr]]
    let ?c = "comps p"
    have t: "tree_like (files w) \<Longrightarrow> tree_like (files w')"
      unfolding tree_like_iff
    proof (intro allI impI)
      fix k q
      assume tl: "\<forall>k p. stat_c (files w) k \<noteq> None \<and> strict_prefix p k \<longrightarrow> stat_c (files w) p = Some Dir"
        and kq: "stat_c (files w') k \<noteq> None \<and> strict_prefix q k"
      from kq e(3)[of k] have "stat_c (files w) k \<noteq> None" by (auto split: if_splits)
      with kq tl have d: "stat_c (files w) q = Some Dir" by blast
      with e(2) have "q \<noteq> ?c" by auto
      with d show "stat_c (files w') q = Some Dir" using e(3)[of q] by simp
    qed
    show ?thesis unfolding evolve_def using t e(2) e(3) by auto
  qed
qed

subsection \<open>The composite operations\<close>

lemma evolves_case_result:
  assumes "evolves F D m"
    and "\<And>e. evolves F D (g e)" and "\<And>x. evolves F D (h x)"
  shows "evolves F D (\<lambda>w. case m w of (Inl e, w1) \<Rightarrow> g e w1 | (Inr x, w1) \<Rightarrow> h x w1)"
proof (rule evolvesI)
  fix w r w'
  assume a: "(case m w of (Inl e, w1) \<Rightarrow> g e w1 | (Inr x, w1) \<Rightarrow> h x w1) = (r, w')"
  obtain r1 w1 where m: "m w = (r1, w1)" by (cases "m w")
  show "evolve F D (files w) (files w')"
  proof (cases r1)
    case (Inl e)
    with a m have "g e w1 = (r, w')" by simp
    from evolve_trans[OF evolvesD[OF assms(1) m] evolvesD[OF assms(2) this]] show ?thesis .
  next
    case (Inr x)
    with a m have "h x w1 = (r, w')" by simp
    from evolve_trans[OF evolvesD[OF assms(1) m] evolvesD[OF assms(3) this]] show ?thesis .
  qed
qed

lemma evolves_pair: "evolves F D (\<lambda>w. (r, w))"
  by (simp add: evolves_def evolve_refl)

lemma evolves_cond: "evolves F D m \<Longrightarrow> evolves F D n \<Longrightarrow> evolves F D (\<lambda>w. if c w then m w else n w)"
  by (simp add: evolves_def)

lemma mkdir_c_evolves_any: "evolves {} UNIV (mkdir_c c)"
  by (rule evolves_mono[OF mkdir_c_evolves]) auto

lemma makedirs_rev_evolves: "evolves {} UNIV (makedirs_rev rc)"
proof (induction rc)
  case Nil
  have "makedirs_rev [] = raise FileExistsError" by (rule ext) simp
  then show ?case by (simp add: evolves_raise)
next
  case (Cons n rparent)
  let ?first = "\<lambda>w. if rparent \<noteq> [] \<and> stat_c (files w) (rev rparent) = None
                     then makedirs_rev rparent w else ret () w"
  have f: "evolves {} UNIV ?first"
    by (rule evolves_cond[OF Cons.IH evolves_ret])
  have g: "\<And>e. evolves {} UNIV
      (\<lambda>w1. if e = FileExistsError then mkdir_c (rev (n # rparent)) w1 else (Inl e, w1))"
  proof -
    fix e
    show "evolves {} UNIV
      (\<lambda>w1. if e = FileExistsError then mkdir_c (rev (n # rparent)) w1 else (Inl e, w1))"
      by (cases "e = FileExistsError") (simp_all add: mkdir_c_evolves_any evolves_pair)
  qed
  have "makedirs_rev (n # rparent)
      = (\<lambda>w. case ?first w of
           (Inl e, w1) \<Rightarrow> if e = FileExistsError then mkdir_c (rev (n # rparent)) w1 else (Inl e, w1)
         | (Inr u, w1) \<Rightarrow> mkdir_c (rev (n # rparent)) w1)"
    by (rule ext) simp
  then show ?case
    using evolves_case_result[OF f g, of "\<lambda>u. mkdir_c (rev (n # rparent))"] mkdir_c_evolves_any
    by simp
qed

lemma os_makedirs_evolves: "evolves {} UNIV (os_makedirs p)"
proof -
  have "os_makedirs p = (\<lambda>w. if p = [] then raise FileNotFoundError w else makedirs_rev (rev (comps p)) w)"
    by (rule ext) (simp add: os_makedirs_def)
  then show ?thesis using evolves_cond[OF evolves_raise makedirs_rev_evolves] by simp
qed













subsection \<open>The relative paths the walker returns\<close>




subsection \<open>The steps of the packager\<close>









subsection \<open>The download step\<close>

lemma urlretrieve_evolves: "evolves {comps filename} {} (urlretrieve E src_url filename)"
proof (rule evolvesI)
  fix w r w' assume a: "urlretrieve E src_url filename w = (r, w')"
  let ?w1 = "w\<lparr>requested := requested w @ [src_url]\<rparr>"
  from a consider "w' = ?w1" | content where "write_file filename content ?w1 = (r, w')"
    by (auto simp: urlretrieve_def Let_def raise_def split: option.splits)
  then show "evolve {comps filename} {} (files w) (files w')"
  proof cases
    case 1
    then show ?thesis by (simp add: evolve_refl)
  next
    case 2
    from evolvesD[OF write_file_evolves 2] show ?thesis by simp
  qed
qed

lemma fetch_and_verify_evolves: "evolves {comps zip_path} {} (fetch_and_verify E src_url zip_path chk alg)"
proof -
  have "\<And>u. evolves {comps zip_path} {}
      (\<lambda>w1. case calculate_file_checksum E (files w1) zip_path alg default_chunk_size of
                  Inl e \<Rightarrow> raise e w1
                | Inr file_checksum \<Rightarrow>
                    if chk \<noteq> file_checksum
                    then raise (ValueError (''USD zip checksum mismatch: '' @ file_checksum @ '' != '' @ chk)) w1
                    else ret () w1)"
    by (auto simp: evolves_def raise_def ret_def evolve_refl split: sum.splits)
  then show ?thesis
    unfolding fetch_and_verify_def by (intro evolves_andthen urlretrieve_evolves)
qed

lemma download_platform_evolves:
  "evolves {comps (path_join downloads_dir (last (split_sep CHR ''/'' (url platform_info))))} {}
     (download_platform E downloads_dir platform_name platform_info zip_files_info)"
proof (rule evolvesI)
  fix w r w'
  assume a: "download_platform E downloads_dir platform_name platform_info zip_files_info w = (r, w')"
  let ?zp = "path_join downloads_dir (last (split_sep CHR ''/'' (url platform_info)))"
  let ?infos = "zip_files_info @ [zip_file_info E platform_name platform_info]"
  let ?fetch = "andthen (fetch_and_verify E (url platform_info) ?zp (checksum platform_info)
                   (checksum_algorithm platform_info)) (\<lambda>u. ret ?infos)"
  let ?refetch = "andthen (os_remove ?zp) (\<lambda>u. ?fetch)"
  have f: "evolves {comps ?zp} {} ?fetch"
    by (intro evolves_andthen fetch_and_verify_evolves evolves_ret)
  have rf: "evolves {comps ?zp} {} ?refetch"
    by (intro evolves_andthen os_remove_evolves f)
  from a consider "w' = w" | "?fetch w = (r, w')" | "?refetch w = (r, w')"
    by (auto simp: download_platform_def Let_def raise_def ret_def split: if_splits sum.splits)
  then show "evolve {comps ?zp} {} (files w) (files w')"
  proof cases
    case 1
    then show ?thesis by (simp add: evolve_refl)
  next
    case 2
    from evolvesD[OF f 2] show ?thesis .
  next
    case 3
    from evolvesD[OF rf 3] show ?thesis .
  qed
qed






subsection \<open>Sequencing\<close>


lemma andthen_Inr:
  "andthen m f w = (Inr y, w') \<Longrightarrow> \<exists>x w1. m w = (Inr x, w1) \<and> f x w1 = (Inr y, w')"
  by (auto simp: andthen_def split: prod.splits sum.splits)

lemma andthen_Inl_first: "m w = (Inl e, w1) \<Longrightarrow> andthen m f w = (Inl e, w1)"
  by (simp add: andthen_def)

lemma andthen_Inr_first: "m w = (Inr x, w1) \<Longrightarrow> andthen m f w = f x w1"
  by (simp add: andthen_def)

subsection \<open>The paths of \<open>main\<close>\<close>














subsection \<open>The places \<open>main\<close> works in\<close>







subsection \<open>What a change of the file system keeps\<close>


lemma evolve_Dir: "evolve F D fs fs' \<Longrightarrow> stat_c fs q = Some Dir \<Longrightarrow> stat_c fs' q = Some Dir"
  by (simp add: evolve_def)



lemma evolve_same:
  "evolve F D fs fs' \<Longrightarrow> q \<notin> F \<Longrightarrow> q \<notin> D \<Longrightarrow> stat_c fs' q = stat_c fs q"
  unfolding evolve_def by metis

subsection \<open>The steps of a run that succeeds\<close>

lemma andthen_InrE:
  assumes "andthen m f w = (Inr y, w')"
  obtains x w1 where "m w = (Inr x, w1)" "f x w1 = (Inr y, w')"
  using andthen_Inr[OF assms] by blast


lemma write_file_File: "write_file p b w = (Inr u, w') \<Longrightarrow> stat_c (files w') (comps p) = Some (File b)"
  using write_file_Inr(5)[of p b w u w' "comps p"] by simp






subsection \<open>The file names of the archives\<close>



subsection \<open>Where the steps of \<open>main\<close> write\<close>





subsection \<open>The flags of \<open>main\<close>\<close>








subsection \<open>A checksum mismatch\<close>








subsection \<open>The directory part of a destination\<close>

lemma head_basename: "head_to_slash p @ basename p = p"
proof -
  have "rev (takeWhile (\<lambda>x. x \<noteq> CHR ''/'') (rev p) @ dropWhile (\<lambda>x. x \<noteq> CHR ''/'') (rev p)) = p"
    by simp
  then show ?thesis unfolding head_to_slash_def basename_def by (simp only: rev_append)
qed

lemma head_to_slash_last: "head_to_slash p \<noteq> [] \<Longrightarrow> last (head_to_slash p) = CHR ''/''"
  using hd_dropWhile[of "\<lambda>x. x \<noteq> CHR ''/''" "rev p"]
  by (simp add: head_to_slash_def last_rev)

lemma comps_rstrip: "comps (rstrip_chr CHR ''/'' s) = comps s"
proof (induction s rule: rev_induct)
  case Nil
  then show ?case by (simp add: rstrip_chr_def)
next
  case (snoc x xs)
  show ?case
  proof (cases "x = CHR ''/''")
    case True
    have "comps (xs @ [x]) = comps xs"
      using comps_append_slash[of xs "[]"] True by (simp add: comps_Nil)
    moreover have "rstrip_chr CHR ''/'' (xs @ [x]) = rstrip_chr CHR ''/'' xs"
      using True by (simp add: rstrip_chr_def)
    ultimately show ?thesis using snoc by simp
  next
    case False
    then show ?thesis by (simp add: rstrip_chr_def)
  qed
qed

lemma comps_dirname: "comps (dirname p) = comps (head_to_slash p)"
  by (simp add: dirname_def Let_def comps_rstrip)

lemma comps_dirname_prefix: "prefix (comps (dirname p)) (comps p)"
proof (cases "head_to_slash p = []")
  case True
  then show ?thesis by (simp add: comps_dirname comps_Nil)
next
  case False
  then obtain h where h: "head_to_slash p = h @ ''/''"
    using head_to_slash_last[OF False] by (metis append_butlast_last_id)
  have "comps p = comps (h @ CHR ''/'' # basename p)"
    using head_basename[of p] h by simp
  then have "comps p = comps h @ comps (basename p)" by (simp only: comps_append_slash)
  moreover have "comps (head_to_slash p) = comps h"
    using comps_append_slash[of h "[]"] h by (simp add: comps_Nil)
  ultimately show ?thesis by (simp add: comps_dirname)
qed

lemma dirname_nonempty: "CHR ''/'' \<in> set p \<Longrightarrow> dirname p \<noteq> []"
proof -
  assume a: "CHR ''/'' \<in> set p"
  then have "dropWhile (\<lambda>x. x \<noteq> CHR ''/'') (rev p) \<noteq> []" by (simp add: dropWhile_eq_Nil_conv)
  then have hn: "head_to_slash p \<noteq> []" by (simp add: head_to_slash_def)
  show ?thesis
  proof (cases "head_to_slash p = replicate (length (head_to_slash p)) CHR ''/''")
    case True
    with hn show ?thesis by (simp add: dirname_def Let_def)
  next
    case False
    then obtain x where x: "x \<in> set (head_to_slash p)" "x \<noteq> CHR ''/''"
      by (metis replicate_eqI)
    have "rstrip_chr CHR ''/'' (head_to_slash p) \<noteq> []"
    proof
      assume "rstrip_chr CHR ''/'' (head_to_slash p) = []"
      then have "dropWhile (\<lambda>x. x = CHR ''/'') (rev (head_to_slash p)) = []"
        by (simp add: rstrip_chr_def)
      then have "\<forall>y\<in>set (rev (head_to_slash p)). y = CHR ''/''"
        by (simp add: dropWhile_eq_Nil_conv)
      with x show False by simp
    qed
    with False hn show ?thesis by (simp add: dirname_def Let_def)
  qed
qed

text \<open>The destinations that \<open>copy_server_content\<close> builds have a directory part.\<close>

lemma output_destination_dirname:
  "dirname (path_join (path_join addon_output_dir ''server'') dst_subpath) \<noteq> []"
proof (rule dirname_nonempty)
  let ?s = "path_join addon_output_dir ''server''"
  have s: "?s \<noteq> []" by (auto simp: path_join_def)
  show "CHR ''/'' \<in> set (path_join ?s dst_subpath)"
  proof (cases "dst_subpath \<noteq> [] \<and> hd dst_subpath = CHR ''/''")
    case True
    then show ?thesis by (cases dst_subpath) (auto simp: path_join_def)
  next
    case False
    show ?thesis
    proof (cases "last ?s = CHR ''/''")
      case True
      with s have "CHR ''/'' \<in> set ?s" using last_in_set by metis
      with False s True show ?thesis unfolding path_join_def[of ?s dst_subpath] by auto
    next
      case False2: False
      with False s show ?thesis unfolding path_join_def[of ?s dst_subpath] by auto
    qed
  qed
qed

subsection \<open>When the creation of the destination directory fails\<close>

lemma mkdir_c_other_error:
  assumes "mkdir_c c w = (Inl e, w1)" "e \<noteq> FileExistsError"
  shows "w1 = w" and "stat_c (files w) (butlast c) \<noteq> Some Dir"
  using assms
  by (auto simp: mkdir_c_def raise_def ret_def parent_error_def
        split: if_splits option.splits entry.splits)

lemma makedirs_rev_other_error:
  "makedirs_rev rc w = (Inl e, w1) \<Longrightarrow> e \<noteq> FileExistsError \<Longrightarrow>
   \<exists>p. strict_prefix p (rev rc) \<and> stat_c (files w1) p \<noteq> Some Dir"
proof (induction rc arbitrary: w e w1)
  case Nil
  then show ?case by (simp add: raise_def)
next
  case (Cons n rparent)
  let ?first = "if rparent \<noteq> [] \<and> stat_c (files w) (rev rparent) = None
                then makedirs_rev rparent w else ret () w"
  obtain r0 w0 where f: "?first = (r0, w0)" by (cases ?first)
  have sp: "strict_prefix (rev rparent) (rev (n # rparent))" by (simp add: strict_prefix_def)
  have last_step: ?case if m: "mkdir_c (rev (n # rparent)) w0 = (Inl e, w1)"
  proof -
    from mkdir_c_other_error[OF m Cons.prems(2)]
    have "w1 = w0" "stat_c (files w0) (rev rparent) \<noteq> Some Dir" by simp_all
    with sp show ?thesis by blast
  qed
  show ?case
  proof (cases r0)
    case (Inr u)
    with Cons.prems(1) f have "mkdir_c (rev (n # rparent)) w0 = (Inl e, w1)" by simp
    then show ?thesis by (rule last_step)
  next
    case (Inl e0)
    show ?thesis
    proof (cases "e0 = FileExistsError")
      case True
      with Cons.prems(1) f Inl have "mkdir_c (rev (n # rparent)) w0 = (Inl e, w1)" by simp
      then show ?thesis by (rule last_step)
    next
      case False
      with Cons.prems(1) f Inl have ew: "e = e0" "w1 = w0" by simp_all
      from f Inl have "makedirs_rev rparent w = (Inl e0, w0)"
        by (auto simp: ret_def split: if_splits)
      from Cons.IH[OF this False] obtain p where
        "strict_prefix p (rev rparent)" "stat_c (files w0) p \<noteq> Some Dir" by blast
      with ew sp show ?thesis using prefix_order.less_trans by blast
    qed
  qed
qed

lemma shutil_copy_Inl: "shutil_copy src dst w = (Inl e, w') \<Longrightarrow> w' = w"
  by (auto simp: shutil_copy_def Let_def raise_def dest: write_file_Inl split: if_splits sum.splits)

lemma shutil_copy_Inr_parents:
  assumes c: "shutil_copy src dst w = (Inr u, w')" and t: "tree_like (files w)"
    and p: "strict_prefix p (comps dst)"
  shows "stat_c (files w) p = Some Dir"
proof (cases "isdir (files w) dst")
  case True
  then have "stat_c (files w) (comps dst) = Some Dir"
    by (auto simp: isdir_def stat_def split: if_splits)
  then have "stat_c (files w) (comps dst) \<noteq> None" by simp
  from tree_like_prefix[OF t this p] show ?thesis .
next
  case False
  with c obtain content where "write_file dst content w = (Inr u, w')"
    by (auto simp: shutil_copy_def Let_def raise_def split: if_splits sum.splits)
  from write_file_Inr(2,4)[OF this]
  have ne: "comps dst \<noteq> []" and d: "stat_c (files w) (butlast (comps dst)) = Some Dir" by simp_all
  from p ne have "prefix p (butlast (comps dst))"
    by (metis append_butlast_last_id prefix_snoc strict_prefix_def)
  then have "p = butlast (comps dst) \<or> strict_prefix p (butlast (comps dst))"
    by (auto simp: strict_prefix_def)
  then show ?thesis
  proof
    assume "p = butlast (comps dst)"
    with d show ?thesis by simp
  next
    assume sp: "strict_prefix p (butlast (comps dst))"
    from d have "stat_c (files w) (butlast (comps dst)) \<noteq> None" by simp
    from tree_like_prefix[OF t this sp] show ?thesis .
  qed
qed

lemma safe_copy_file_as_copy:
  assumes "src_path \<noteq> dst_path" "os_makedirs (dirname dst_path) w = (r, w1)"
  shows "safe_copy_file src_path dst_path w = shutil_copy src_path dst_path w1"
  using assms
  by (auto simp: safe_copy_file_def suppress_Exception_def andthen_def ret_def Let_def
        split: sum.splits)

lemma only_exists_error_passes:
  assumes ne: "src_path \<noteq> dst_path" and d: "dirname dst_path \<noteq> []"
    and t: "tree_like (files w)"
    and m: "os_makedirs (dirname dst_path) w = (Inl e, w1)"
    and c: "safe_copy_file src_path dst_path w = (Inr u, w')"
  shows "e = FileExistsError"
proof (rule ccontr)
  assume o: "e \<noteq> FileExistsError"
  from m d have "makedirs_rev (rev (comps (dirname dst_path))) w = (Inl e, w1)"
    by (simp add: os_makedirs_def)
  from makedirs_rev_other_error[OF this o] obtain p where
    p: "strict_prefix p (comps (dirname dst_path))" and np: "stat_c (files w1) p \<noteq> Some Dir"
    by auto
  have t1: "tree_like (files w1)"
    using evolvesD[OF os_makedirs_evolves m] t by (simp add: evolve_def)
  from c safe_copy_file_as_copy[OF ne m] have "shutil_copy src_path dst_path w1 = (Inr u, w')"
    by simp
  moreover have "strict_prefix p (comps dst_path)"
    using p comps_dirname_prefix[of dst_path] by (rule prefix_order.less_le_trans)
  ultimately have "stat_c (files w1) p = Some Dir"
    using shutil_copy_Inr_parents[OF _ t1] by blast
  with np show False by simp
qed





subsection \<open>The one tolerated error\<close>

text \<open>
  C6. For a destination with a directory part, as output construction builds them
  (\<open>output_destination_dirname\<close>), on a table that is a tree:
  when the destination directory exists, its creation raises \<open>FileExistsError\<close>,
  changes nothing and is passed over, so \<open>safe_copy_file\<close> is the copy alone;
  no other error of the creation is tolerated: if the creation fails and
  \<open>safe_copy_file\<close> still succeeds, the error was \<open>FileExistsError\<close>, and with any
  other error \<open>safe_copy_file\<close> raises, in the state the creation left;
  an error of the copy itself is the outcome of \<open>safe_copy_file\<close>.
\<close>

theorem only_exists_error_tolerated:
  assumes "src_path \<noteq> dst_path" and "dirname dst_path \<noteq> []" and "tree_like (files w)"
  shows "(isdir (files w) (dirname dst_path) \<longrightarrow>
            os_makedirs (dirname dst_path) w = (Inl FileExistsError, w)
          \<and> safe_copy_file src_path dst_path w = shutil_copy src_path dst_path w)
       \<and> (\<forall>e w1 w'. os_makedirs (dirname dst_path) w = (Inl e, w1)
              \<and> safe_copy_file src_path dst_path w = (Inr (), w') \<longrightarrow> e = FileExistsError)
       \<and> (\<forall>e w1. os_makedirs (dirname dst_path) w = (Inl e, w1) \<and> e \<noteq> FileExistsError
              \<longrightarrow> (\<exists>e'. safe_copy_file src_path dst_path w = (Inl e', w1)))
       \<and> (\<forall>r w1 e w2. os_makedirs (dirname dst_path) w = (r, w1)
              \<and> shutil_copy src_path dst_path w1 = (Inl e, w2)
              \<longrightarrow> safe_copy_file src_path dst_path w = (Inl e, w2))"
proof -
  have A: "os_makedirs (dirname dst_path) w = (Inl FileExistsError, w)
          \<and> safe_copy_file src_path dst_path w = shutil_copy src_path dst_path w"
    if "isdir (files w) (dirname dst_path)"
    using os_makedirs_exists[OF assms(3) that] safe_copy_file_as_copy[OF assms(1)] by simp
  have B: "e = FileExistsError"
    if "os_makedirs (dirname dst_path) w = (Inl e, w1)"
      "safe_copy_file src_path dst_path w = (Inr (), w')" for e w1 w'
    using only_exists_error_passes[OF assms that] .
  have B': "\<exists>e'. safe_copy_file src_path dst_path w = (Inl e', w1)"
    if m: "os_makedirs (dirname dst_path) w = (Inl e, w1)" and o: "e \<noteq> FileExistsError" for e w1
  proof -
    obtain r' w'' where c: "shutil_copy src_path dst_path w1 = (r', w'')"
      by (cases "shutil_copy src_path dst_path w1")
    with safe_copy_file_as_copy[OF assms(1) m]
    have s: "safe_copy_file src_path dst_path w = (r', w'')" by simp
    show ?thesis
    proof (cases r')
      case (Inr u)
      with s B[OF m] o show ?thesis by simp
    next
      case (Inl e')
      with c shutil_copy_Inl have "w'' = w1" by blast
      with s Inl show ?thesis by blast
    qed
  qed
  have C: "safe_copy_file src_path dst_path w = (Inl e, w2)"
    if "os_makedirs (dirname dst_path) w = (r, w1)"
      "shutil_copy src_path dst_path w1 = (Inl e, w2)" for r w1 e w2
    using safe_copy_file_as_copy[OF assms(1) that(1)] that(2) by simp
  from A B B' C show ?thesis by blast
qed

text \<open>An output directory whose place is taken by a file.\<close>

definition w_blocked :: world where
  "w_blocked = \<lparr>files = [([''src''], Dir), ([''src'', ''a.py''], File ''a''), ([''out''], File ''x'')],
                requested = []\<rparr>"

theorem only_exists_error_tolerated_witness:
  "''/src/a.py'' \<noteq> ''/out/a.py'' \<and> dirname ''/out/a.py'' \<noteq> []
   \<and> tree_like (files w_copy) \<and> isdir (files w_copy) (dirname ''/out/a.py'')
   \<and> os_makedirs (dirname ''/out/a.py'') w_copy = (Inl FileExistsError, w_copy)
   \<and> safe_copy_file ''/src/a.py'' ''/out/a.py'' w_copy
       = (Inr (), w_copy\<lparr>files := files w_copy @ [([''out'', ''a.py''], File ''a'')]\<rparr>)
   \<and> safe_copy_file ''/src/none.py'' ''/out/none.py'' w_copy = (Inl FileNotFoundError, w_copy)
   \<and> tree_like (files w_blocked)
   \<and> os_makedirs (dirname (path_join (path_join ''/out'' ''server'') ''a.py'')) w_blocked
       = (Inl NotADirectoryError, w_blocked)
   \<and> (\<exists>e'. safe_copy_file ''/src/a.py'' (path_join (path_join ''/out'' ''server'') ''a.py'') w_blocked
              = (Inl e', w_blocked))"
proof -
  let ?dst = "path_join (path_join ''/out'' ''server'') ''a.py''"
  have n1: "''/src/a.py'' \<noteq> ''/out/a.py''" by simp
  have n2: "''/src/none.py'' \<noteq> ''/out/none.py''" by simp
  have n3: "''/src/a.py'' \<noteq> ?dst" by code_simp
  have d1: "dirname ''/out/a.py'' \<noteq> []" by code_simp
  have d2: "dirname ''/out/none.py'' \<noteq> []" by code_simp
  have d3: "dirname ?dst \<noteq> []" by (rule output_destination_dirname)
  have t: "tree_like (files w_copy)" by code_simp
  have tb: "tree_like (files w_blocked)" by code_simp
  have i: "isdir (files w_copy) (dirname ''/out/a.py'')" by code_simp
  have c1: "shutil_copy ''/src/a.py'' ''/out/a.py'' w_copy
       = (Inr (), w_copy\<lparr>files := files w_copy @ [([''out'', ''a.py''], File ''a'')]\<rparr>)"
    by code_simp
  have m2: "os_makedirs (dirname ''/out/none.py'') w_copy = (Inl FileExistsError, w_copy)" by code_simp
  have c2: "shutil_copy ''/src/none.py'' ''/out/none.py'' w_copy = (Inl FileNotFoundError, w_copy)"
    by code_simp
  have m3: "os_makedirs (dirname ?dst) w_blocked = (Inl NotADirectoryError, w_blocked)" by code_simp
  from only_exists_error_tolerated[OF n1 d1 t] i c1
  have r1: "os_makedirs (dirname ''/out/a.py'') w_copy = (Inl FileExistsError, w_copy)"
    "safe_copy_file ''/src/a.py'' ''/out/a.py'' w_copy
       = (Inr (), w_copy\<lparr>files := files w_copy @ [([''out'', ''a.py''], File ''a'')]\<rparr>)"
    by simp_all
  from only_exists_error_tolerated[OF n2 d2 t] m2 c2
  have r2: "safe_copy_file ''/src/none.py'' ''/out/none.py'' w_copy = (Inl FileNotFoundError, w_copy)"
    by blast
  have ne3: "NotADirectoryError \<noteq> FileExistsError" by simp
  from only_exists_error_tolerated[OF n3 d3 tb]
  have "\<forall>e w1. os_makedirs (dirname ?dst) w_blocked = (Inl e, w1) \<and> e \<noteq> FileExistsError
              \<longrightarrow> (\<exists>e'. safe_copy_file ''/src/a.py'' ?dst w_blocked = (Inl e', w1))"
    by (elim conjE)
  with m3 ne3
  have r3: "\<exists>e'. safe_copy_file ''/src/a.py'' ?dst w_blocked = (Inl e', w_blocked)"
    by blast
  from n1 d1 t tb i r1 r2 m3 r3 show ?thesis by simp
qed

subsection \<open>What the loop body of \<open>download_usd_zip\<close> does to the archive\<close>

lemma urlretrieve_Inr:
  assumes "urlretrieve E src_url filename w = (Inr u, w')"
  shows "\<exists>content. url_content E src_url = Some content
           \<and> write_file filename content (w\<lparr>requested := requested w @ [src_url]\<rparr>) = (Inr u, w')"
  using assms by (auto simp: urlretrieve_def Let_def raise_def split: option.splits)

lemma fetch_and_verify_Inr:
  assumes "fetch_and_verify E src_url zip_path chk alg w = (Inr u, w')"
  shows "\<exists>content. url_content E src_url = Some content
           \<and> write_file zip_path content (w\<lparr>requested := requested w @ [src_url]\<rparr>) = (Inr (), w')"
    and "calculate_file_checksum E (files w') zip_path alg default_chunk_size = Inr chk"
proof -
  from assms obtain u1 w1 where
    1: "urlretrieve E src_url zip_path w = (Inr u1, w1)"
    and 2: "(case calculate_file_checksum E (files w1) zip_path alg default_chunk_size of
               Inl e \<Rightarrow> raise e w1
             | Inr file_checksum \<Rightarrow>
                 if chk \<noteq> file_checksum
                 then raise (ValueError (''USD zip checksum mismatch: '' @ file_checksum @ '' != '' @ chk)) w1
                 else ret () w1) = (Inr u, w')"
    unfolding fetch_and_verify_def by (rule andthen_InrE)
  from 2 have 3: "w' = w1"
    "calculate_file_checksum E (files w1) zip_path alg default_chunk_size = Inr chk"
    by (auto simp: raise_def ret_def split: sum.splits if_splits)
  from urlretrieve_Inr[OF 1] 3(1)
  show "\<exists>content. url_content E src_url = Some content
           \<and> write_file zip_path content (w\<lparr>requested := requested w @ [src_url]\<rparr>) = (Inr (), w')"
    by simp
  from 3 show "calculate_file_checksum E (files w') zip_path alg default_chunk_size = Inr chk"
    by simp
qed

lemma download_platform_on_miss:
  "\<not> path_exists (files w) (path_join dl (last (split_sep CHR ''/'' (url pinfo)))) \<Longrightarrow>
   download_platform E dl pn pinfo infos w
     = andthen (fetch_and_verify E (url pinfo) (path_join dl (last (split_sep CHR ''/'' (url pinfo))))
                  (checksum pinfo) (checksum_algorithm pinfo))
         (\<lambda>u. ret (infos @ [zip_file_info E pn pinfo])) w"
  by (simp add: download_platform_def Let_def)

lemma download_platform_miss_Inr:
  assumes miss: "\<not> path_exists (files w) (path_join dl (last (split_sep CHR ''/'' (url pinfo))))"
    and run: "download_platform E dl pn pinfo infos w = (Inr x, w')"
  shows "x = infos @ [zip_file_info E pn pinfo]"
    and "\<exists>content. url_content E (url pinfo) = Some content
           \<and> stat (files w') (path_join dl (last (split_sep CHR ''/'' (url pinfo)))) = Some (File content)"
    and "calculate_file_checksum E (files w') (path_join dl (last (split_sep CHR ''/'' (url pinfo))))
           (checksum_algorithm pinfo) default_chunk_size = Inr (checksum pinfo)"
    and "requested w' = requested w @ [url pinfo]"
    and "\<And>q. q \<noteq> comps (path_join dl (last (split_sep CHR ''/'' (url pinfo)))) \<Longrightarrow>
           stat_c (files w') q = stat_c (files w) q"
proof -
  let ?zp = "path_join dl (last (split_sep CHR ''/'' (url pinfo)))"
  from run[unfolded download_platform_on_miss[OF miss]] obtain u w1 where
    f: "fetch_and_verify E (url pinfo) ?zp (checksum pinfo) (checksum_algorithm pinfo) w = (Inr u, w1)"
    and r: "ret (infos @ [zip_file_info E pn pinfo]) w1 = (Inr x, w')"
    by (rule andthen_InrE)
  from r have xw: "x = infos @ [zip_file_info E pn pinfo]" "w' = w1" by (simp_all add: ret_def)
  from fetch_and_verify_Inr(1)[OF f] obtain content where
    c: "url_content E (url pinfo) = Some content"
    and wr: "write_file ?zp content (w\<lparr>requested := requested w @ [url pinfo]\<rparr>) = (Inr (), w1)"
    by blast
  note eff = write_file_Inr[OF wr]
  show "x = infos @ [zip_file_info E pn pinfo]" by (rule xw(1))
  show "\<exists>content. url_content E (url pinfo) = Some content
           \<and> stat (files w') ?zp = Some (File content)"
    using c eff(1) eff(5)[of "comps ?zp"] xw(2) by (simp add: stat_def)
  show "calculate_file_checksum E (files w') ?zp (checksum_algorithm pinfo) default_chunk_size
          = Inr (checksum pinfo)"
    using fetch_and_verify_Inr(2)[OF f] xw(2) by simp
  show "requested w' = requested w @ [url pinfo]" using eff(6) xw(2) by simp
  show "\<And>q. q \<noteq> comps ?zp \<Longrightarrow> stat_c (files w') q = stat_c (files w) q"
    using eff(5) xw(2) by simp
qed

lemma download_platform_stale:
  assumes ex: "path_exists (files w) (path_join dl (last (split_sep CHR ''/'' (url pinfo))))"
    and ck: "calculate_file_checksum E (files w) (path_join dl (last (split_sep CHR ''/'' (url pinfo))))
               (checksum_algorithm pinfo) default_chunk_size = Inr c"
    and ne: "c \<noteq> checksum pinfo"
  shows "\<exists>ws. os_remove (path_join dl (last (split_sep CHR ''/'' (url pinfo)))) w = (Inr (), ws)
           \<and> stat (files ws) (path_join dl (last (split_sep CHR ''/'' (url pinfo)))) = None
           \<and> requested ws = requested w
           \<and> (\<forall>q. q \<noteq> comps (path_join dl (last (split_sep CHR ''/'' (url pinfo))))
                  \<longrightarrow> stat_c (files ws) q = stat_c (files w) q)
           \<and> download_platform E dl pn pinfo infos w = download_platform E dl pn pinfo infos ws"
proof -
  let ?zp = "path_join dl (last (split_sep CHR ''/'' (url pinfo)))"
  from checksum_Inr_is_file[OF ck] obtain b where "stat (files w) ?zp = Some (File b)" by blast
  from os_remove_file[OF this] obtain ws where
    rm: "os_remove ?zp w = (Inr (), ws)" and gone: "stat (files ws) ?zp = None"
    and rq: "requested ws = requested w" by blast
  have fr: "\<forall>q. q \<noteq> comps ?zp \<longrightarrow> stat_c (files ws) q = stat_c (files w) q"
    using os_remove_Inr(3)[OF rm] by simp
  from gone have miss: "\<not> path_exists (files ws) ?zp" by (simp add: path_exists_def)
  have "download_platform E dl pn pinfo infos w
      = andthen (os_remove ?zp)
          (\<lambda>u. andthen (fetch_and_verify E (url pinfo) ?zp (checksum pinfo) (checksum_algorithm pinfo))
                  (\<lambda>u. ret (infos @ [zip_file_info E pn pinfo]))) w"
    using ex ck ne by (auto simp: download_platform_def Let_def)
  also have "\<dots> = andthen (fetch_and_verify E (url pinfo) ?zp (checksum pinfo) (checksum_algorithm pinfo))
                  (\<lambda>u. ret (infos @ [zip_file_info E pn pinfo])) ws"
    using rm by (simp add: andthen_def)
  also have "\<dots> = download_platform E dl pn pinfo infos ws"
    by (rule download_platform_on_miss[OF miss, symmetric])
  finally show ?thesis using rm gone rq fr by blast
qed

lemma download_platform_hit:
  assumes "path_exists (files w) (path_join dl (last (split_sep CHR ''/'' (url pinfo))))"
    and "calculate_file_checksum E (files w) (path_join dl (last (split_sep CHR ''/'' (url pinfo))))
           (checksum_algorithm pinfo) default_chunk_size = Inr (checksum pinfo)"
  shows "download_platform E dl pn pinfo infos w = (Inr (infos @ [zip_file_info E pn pinfo]), w)"
  using assms by (simp add: download_platform_def Let_def ret_def)

lemma download_platform_fetches:
  assumes miss: "\<not> path_exists (files w) (path_join dl (last (split_sep CHR ''/'' (url pinfo))))"
    and d: "isdir (files w) dl"
    and v: "valid_name (last (split_sep CHR ''/'' (url pinfo)))"
    and c: "url_content E (url pinfo) = Some content"
    and h: "hashlib E (checksum_algorithm pinfo) = Some func"
    and m: "func content = checksum pinfo"
  shows "\<exists>w'. download_platform E dl pn pinfo infos w = (Inr (infos @ [zip_file_info E pn pinfo]), w')"
proof -
  let ?zp = "path_join dl (last (split_sep CHR ''/'' (url pinfo)))"
  let ?w0 = "w\<lparr>requested := requested w @ [url pinfo]\<rparr>"
  let ?w1 = "?w0\<lparr>files := AList.update (comps ?zp) (File content) (files ?w0)\<rparr>"
  have cz: "comps ?zp = comps dl @ [last (split_sep CHR ''/'' (url pinfo))]"
    by (rule comps_path_join_name[OF v])
  have zne: "?zp \<noteq> []" by (rule path_join_name_nonempty[OF v])
  from d have dd: "stat_c (files w) (comps dl) = Some Dir"
    by (auto simp: isdir_def stat_def split: if_splits)
  from miss zne have none: "stat_c (files w) (comps ?zp) = None"
    by (simp add: path_exists_def stat_def)
  have wr: "write_file ?zp content ?w0 = (Inr (), ?w1)"
    using zne none dd by (simp add: write_file_def parent_error_def cz ret_def)
  have ur: "urlretrieve E (url pinfo) ?zp w = (Inr (), ?w1)"
    using c wr by (simp add: urlretrieve_def Let_def)
  have "stat (files ?w1) ?zp = Some (File content)"
    using write_file_File[OF wr] zne by (simp add: stat_def)
  then have rd: "read_file (files ?w1) ?zp = Inr content" by (simp add: read_file_def)
  have ck: "calculate_file_checksum E (files ?w1) ?zp (checksum_algorithm pinfo) default_chunk_size
              = Inr (checksum pinfo)"
    unfolding calculate_file_checksum_closed h rd using m by (simp add: default_chunk_size_def)
  have "fetch_and_verify E (url pinfo) ?zp (checksum pinfo) (checksum_algorithm pinfo) w = (Inr (), ?w1)"
    unfolding fetch_and_verify_def using ur ck by (simp add: andthen_def ret_def)
  then have "download_platform E dl pn pinfo infos w = (Inr (infos @ [zip_file_info E pn pinfo]), ?w1)"
    unfolding download_platform_on_miss[OF miss] by (simp add: andthen_def ret_def)
  then show ?thesis by blast
qed

lemma download_platform_Inr_digest:
  assumes "download_platform E dl pn pinfo infos w = (Inr x, w')"
  shows "calculate_file_checksum E (files w') (path_join dl (last (split_sep CHR ''/'' (url pinfo))))
           (checksum_algorithm pinfo) default_chunk_size = Inr (checksum pinfo)"
proof -
  let ?zp = "path_join dl (last (split_sep CHR ''/'' (url pinfo)))"
  show ?thesis
  proof (cases "path_exists (files w) ?zp")
    case False
    from download_platform_miss_Inr(3)[OF False assms] show ?thesis .
  next
    case True
    show ?thesis
    proof (cases "calculate_file_checksum E (files w) ?zp (checksum_algorithm pinfo) default_chunk_size")
      case (Inl e)
      with True assms show ?thesis by (simp add: download_platform_def Let_def raise_def)
    next
      case (Inr c)
      show ?thesis
      proof (cases "c = checksum pinfo")
        case True2: True
        with download_platform_hit[OF True, of E pn infos] Inr assms show ?thesis by simp
      next
        case False
        from download_platform_stale[OF True Inr False, of pn infos] obtain ws where
          gone: "stat (files ws) ?zp = None"
          and eq: "download_platform E dl pn pinfo infos w = download_platform E dl pn pinfo infos ws"
          by blast
        from gone have "\<not> path_exists (files ws) ?zp" by (simp add: path_exists_def)
        from download_platform_miss_Inr(3)[OF this assms[unfolded eq]] show ?thesis .
      qed
    qed
  qed
qed

lemma checksum_same_file:
  assumes "stat_c fs (comps p) = stat_c fs' (comps p)"
    and "calculate_file_checksum E fs p alg n = Inr c"
  shows "calculate_file_checksum E fs' p alg n = Inr c"
proof -
  from checksum_Inr_is_file[OF assms(2)] obtain b where b: "stat fs p = Some (File b)" by blast
  then have "p \<noteq> []" by (auto simp: stat_def)
  with b assms(1) have "stat fs' p = Some (File b)" by (simp add: stat_def)
  with b have "read_file fs' p = read_file fs p" by (simp add: read_file_def)
  then have "calculate_file_checksum E fs' p alg n = calculate_file_checksum E fs p alg n"
    by (simp only: calculate_file_checksum_closed)
  with assms(2) show ?thesis by simp
qed

text \<open>The entries of the source table and the paths of their archives.\<close>

lemma USD_SOURCES_entries:
  assumes "(item_name, item_info) \<in> set USD_SOURCES" "(pn, pinfo) \<in> set item_info"
  shows "pinfo = usd_24_03_windows \<or> pinfo = usd_24_03_linux"
proof -
  from assms have "item_info = [(''windows'', usd_24_03_windows), (''linux'', usd_24_03_linux)]"
    and "(pn, pinfo) \<in> set item_info"
    unfolding USD_SOURCES_def by (simp_all only: list.set singleton_iff prod.inject)
  then have "(pn, pinfo) = (''windows'', usd_24_03_windows) \<or> (pn, pinfo) = (''linux'', usd_24_03_linux)"
    by (simp only: list.set insert_iff empty_iff) blast
  then show ?thesis by (simp only: prod.inject) blast
qed

lemma usd_zip_paths:
  "comps (path_join dl (last (split_sep CHR ''/'' (url usd_24_03_windows))))
     = comps dl @ [''usd-24.03_win64_py39.zip'']"
  "comps (path_join dl (last (split_sep CHR ''/'' (url usd_24_03_linux))))
     = comps dl @ [''usd-24.03_linux_py39.zip'']"
proof -
  have fw: "last (split_sep CHR ''/'' (url usd_24_03_windows)) = ''usd-24.03_win64_py39.zip''"
    by code_simp
  have fl: "last (split_sep CHR ''/'' (url usd_24_03_linux)) = ''usd-24.03_linux_py39.zip''"
    by code_simp
  have vw: "valid_name ''usd-24.03_win64_py39.zip''" by code_simp
  have vl: "valid_name ''usd-24.03_linux_py39.zip''" by code_simp
  show "comps (path_join dl (last (split_sep CHR ''/'' (url usd_24_03_windows))))
     = comps dl @ [''usd-24.03_win64_py39.zip'']"
    unfolding fw by (rule comps_path_join_name[OF vw])
  show "comps (path_join dl (last (split_sep CHR ''/'' (url usd_24_03_linux))))
     = comps dl @ [''usd-24.03_linux_py39.zip'']"
    unfolding fl by (rule comps_path_join_name[OF vl])
qed

lemma download_usd_zip_Inr:
  assumes "download_usd_zip E dl w = (Inr infos, w')"
  obtains x1 w1 where
    "download_platform E dl ''windows'' usd_24_03_windows [] w = (Inr x1, w1)"
    "download_platform E dl ''linux'' usd_24_03_linux x1 w1 = (Inr infos, w')"
  using assms
  by (auto simp: download_usd_zip_def USD_SOURCES_def ret_def split: prod.splits sum.splits)

lemma download_usd_zip_archives:
  assumes run: "download_usd_zip E dl w = (Inr infos, w')"
    and ent: "(item_name, item_info) \<in> set USD_SOURCES" "(pn, pinfo) \<in> set item_info"
  shows "calculate_file_checksum E (files w') (path_join dl (last (split_sep CHR ''/'' (url pinfo))))
           (checksum_algorithm pinfo) default_chunk_size = Inr (checksum pinfo)"
proof -
  let ?zw = "path_join dl (last (split_sep CHR ''/'' (url usd_24_03_windows)))"
  let ?zl = "path_join dl (last (split_sep CHR ''/'' (url usd_24_03_linux)))"
  from run obtain x1 w1 where
    s1: "download_platform E dl ''windows'' usd_24_03_windows [] w = (Inr x1, w1)"
    and s2: "download_platform E dl ''linux'' usd_24_03_linux x1 w1 = (Inr infos, w')"
    by (rule download_usd_zip_Inr)
  have dw: "calculate_file_checksum E (files w1) ?zw (checksum_algorithm usd_24_03_windows)
              default_chunk_size = Inr (checksum usd_24_03_windows)"
    by (rule download_platform_Inr_digest[OF s1])
  have dl: "calculate_file_checksum E (files w') ?zl (checksum_algorithm usd_24_03_linux)
              default_chunk_size = Inr (checksum usd_24_03_linux)"
    by (rule download_platform_Inr_digest[OF s2])
  have "comps ?zw \<notin> {comps ?zl}" by (simp add: usd_zip_paths)
  from evolve_same[OF evolvesD[OF download_platform_evolves s2] this]
  have "stat_c (files w1) (comps ?zw) = stat_c (files w') (comps ?zw)" by simp
  from checksum_same_file[OF this dw]
  have dw': "calculate_file_checksum E (files w') ?zw (checksum_algorithm usd_24_03_windows)
              default_chunk_size = Inr (checksum usd_24_03_windows)" .
  from USD_SOURCES_entries[OF ent] dw' dl show ?thesis by blast
qed

text \<open>
  C4. Whenever \<open>download_usd_zip\<close> returns, its list is the record
  \<open>{name, filename, checksum, checksum_algorithm, platform}\<close> of every entry of the
  source table, one each, in the table's order, and the archive of every entry is
  in the downloads directory with the declared digest.
  For one entry (the loop body \<open>download_platform\<close>), with \<open>zip_path\<close> its
  destination and \<open>record\<close> its record:
  when the destination exists with the declared digest, the record is appended and
  nothing else happens: no request, no write;
  when it exists with another digest, the file is removed and the run goes on as
  from the state without it;
  when it does not exist and the body returns, the record is appended, the URL of
  the entry was requested, the destination holds the bytes that URL serves, their
  digest is the declared one, and no other path changed;
  and the body does return when the downloads directory exists, the URL serves
  bytes and their digest is the declared checksum.
\<close>

theorem download_usd_zip_cache_and_records:
  assumes "zip_path = path_join downloads_dir (last (split_sep CHR ''/'' (url platform_info)))"
    and "record = [(''name'', ADDON_NAME E),
                   (''filename'', last (split_sep CHR ''/'' (url platform_info))),
                   (''checksum'', checksum platform_info),
                   (''checksum_algorithm'', checksum_algorithm platform_info),
                   (''platform'', platform_name)]"
  shows "(\<forall>infos w'. download_usd_zip E downloads_dir w = (Inr infos, w') \<longrightarrow>
            infos = concat (map (\<lambda>(item_name, item_info).
                      map (\<lambda>(pn, pinfo). [(''name'', ADDON_NAME E),
                                           (''filename'', last (split_sep CHR ''/'' (url pinfo))),
                                           (''checksum'', checksum pinfo),
                                           (''checksum_algorithm'', checksum_algorithm pinfo),
                                           (''platform'', pn)]) item_info) USD_SOURCES)
          \<and> (\<forall>item_name item_info pn pinfo.
                (item_name, item_info) \<in> set USD_SOURCES \<and> (pn, pinfo) \<in> set item_info \<longrightarrow>
                calculate_file_checksum E (files w')
                  (path_join downloads_dir (last (split_sep CHR ''/'' (url pinfo))))
                  (checksum_algorithm pinfo) default_chunk_size = Inr (checksum pinfo)))
       \<and> (path_exists (files w) zip_path
          \<and> calculate_file_checksum E (files w) zip_path (checksum_algorithm platform_info)
               default_chunk_size = Inr (checksum platform_info)
          \<longrightarrow> download_platform E downloads_dir platform_name platform_info zip_files_info w
                = (Inr (zip_files_info @ [record]), w))
       \<and> (\<forall>c. path_exists (files w) zip_path
              \<and> calculate_file_checksum E (files w) zip_path (checksum_algorithm platform_info)
                   default_chunk_size = Inr c
              \<and> c \<noteq> checksum platform_info
          \<longrightarrow> (\<exists>ws. os_remove zip_path w = (Inr (), ws)
                  \<and> stat (files ws) zip_path = None
                  \<and> requested ws = requested w
                  \<and> (\<forall>q. q \<noteq> comps zip_path \<longrightarrow> stat_c (files ws) q = stat_c (files w) q)
                  \<and> download_platform E downloads_dir platform_name platform_info zip_files_info w
                      = download_platform E downloads_dir platform_name platform_info zip_files_info ws))
       \<and> (\<not> path_exists (files w) zip_path \<longrightarrow>
            (\<forall>x w'. download_platform E downloads_dir platform_name platform_info zip_files_info w
                       = (Inr x, w') \<longrightarrow>
                 x = zip_files_info @ [record]
               \<and> (\<exists>content. url_content E (url platform_info) = Some content
                     \<and> stat (files w') zip_path = Some (File content))
               \<and> calculate_file_checksum E (files w') zip_path (checksum_algorithm platform_info)
                    default_chunk_size = Inr (checksum platform_info)
               \<and> requested w' = requested w @ [url platform_info]
               \<and> (\<forall>q. q \<noteq> comps zip_path \<longrightarrow> stat_c (files w') q = stat_c (files w) q)))
       \<and> (\<forall>content func.
              \<not> path_exists (files w) zip_path \<and> isdir (files w) downloads_dir
            \<and> valid_name (last (split_sep CHR ''/'' (url platform_info)))
            \<and> url_content E (url platform_info) = Some content
            \<and> hashlib E (checksum_algorithm platform_info) = Some func
            \<and> func content = checksum platform_info
          \<longrightarrow> (\<exists>w'. download_platform E downloads_dir platform_name platform_info zip_files_info w
                      = (Inr (zip_files_info @ [record]), w')))"
proof -
  have rec: "record = zip_file_info E platform_name platform_info"
    by (simp add: assms(2) zip_file_info_def)
  have A: "infos = concat (map (\<lambda>(item_name, item_info).
                      map (\<lambda>(pn, pinfo). [(''name'', ADDON_NAME E),
                                           (''filename'', last (split_sep CHR ''/'' (url pinfo))),
                                           (''checksum'', checksum pinfo),
                                           (''checksum_algorithm'', checksum_algorithm pinfo),
                                           (''platform'', pn)]) item_info) USD_SOURCES)
          \<and> (\<forall>item_name item_info pn pinfo.
                (item_name, item_info) \<in> set USD_SOURCES \<and> (pn, pinfo) \<in> set item_info \<longrightarrow>
                calculate_file_checksum E (files w')
                  (path_join downloads_dir (last (split_sep CHR ''/'' (url pinfo))))
                  (checksum_algorithm pinfo) default_chunk_size = Inr (checksum pinfo))"
    if run: "download_usd_zip E downloads_dir w = (Inr infos, w')" for infos w'
  proof -
    from run have "infos = [] @ concat (map (\<lambda>(item_name, item_info).
        map (\<lambda>(pn, pinfo). zip_file_info E pn pinfo) item_info) USD_SOURCES)"
      unfolding download_usd_zip_def by (rule download_items_returns)
    then have 1: "infos = concat (map (\<lambda>(item_name, item_info).
                      map (\<lambda>(pn, pinfo). [(''name'', ADDON_NAME E),
                                           (''filename'', last (split_sep CHR ''/'' (url pinfo))),
                                           (''checksum'', checksum pinfo),
                                           (''checksum_algorithm'', checksum_algorithm pinfo),
                                           (''platform'', pn)]) item_info) USD_SOURCES)"
      by (simp add: zip_file_info_def)
    from download_usd_zip_archives[OF run] 1 show ?thesis by blast
  qed
  have B: "download_platform E downloads_dir platform_name platform_info zip_files_info w
                = (Inr (zip_files_info @ [record]), w)"
    if "path_exists (files w) zip_path"
      "calculate_file_checksum E (files w) zip_path (checksum_algorithm platform_info)
               default_chunk_size = Inr (checksum platform_info)"
    using download_platform_hit[OF that[unfolded assms(1)]] by (simp add: rec)
  have C: "\<exists>ws. os_remove zip_path w = (Inr (), ws)
                  \<and> stat (files ws) zip_path = None
                  \<and> requested ws = requested w
                  \<and> (\<forall>q. q \<noteq> comps zip_path \<longrightarrow> stat_c (files ws) q = stat_c (files w) q)
                  \<and> download_platform E downloads_dir platform_name platform_info zip_files_info w
                      = download_platform E downloads_dir platform_name platform_info zip_files_info ws"
    if "path_exists (files w) zip_path"
      "calculate_file_checksum E (files w) zip_path (checksum_algorithm platform_info)
                   default_chunk_size = Inr c"
      "c \<noteq> checksum platform_info" for c
    using download_platform_stale[OF that(1,2)[unfolded assms(1)] that(3)]
    unfolding assms(1) by blast
  have D: "x = zip_files_info @ [record]
               \<and> (\<exists>content. url_content E (url platform_info) = Some content
                     \<and> stat (files w') zip_path = Some (File content))
               \<and> calculate_file_checksum E (files w') zip_path (checksum_algorithm platform_info)
                    default_chunk_size = Inr (checksum platform_info)
               \<and> requested w' = requested w @ [url platform_info]
               \<and> (\<forall>q. q \<noteq> comps zip_path \<longrightarrow> stat_c (files w') q = stat_c (files w) q)"
    if miss: "\<not> path_exists (files w) zip_path"
      and run: "download_platform E downloads_dir platform_name platform_info zip_files_info w
                  = (Inr x, w')" for x w'
    using download_platform_miss_Inr[OF miss[unfolded assms(1)] run]
    unfolding assms(1) rec by blast
  have F: "\<exists>w'. download_platform E downloads_dir platform_name platform_info zip_files_info w
                      = (Inr (zip_files_info @ [record]), w')"
    if "\<not> path_exists (files w) zip_path" "isdir (files w) downloads_dir"
      "valid_name (last (split_sep CHR ''/'' (url platform_info)))"
      "url_content E (url platform_info) = Some content"
      "hashlib E (checksum_algorithm platform_info) = Some func"
      "func content = checksum platform_info" for content func
    using download_platform_fetches[OF that(1)[unfolded assms(1)] that(2-6)]
    unfolding rec by blast
  from A B C D F show ?thesis by blast
qed

text \<open>A downloads directory that holds the Windows archive only.\<close>

definition w_linux_missing :: world where
  "w_linux_missing =
     \<lparr>files = [([''r''], Dir), ([''r'', ''downloads''], Dir),
               ([''r'', ''downloads'', ''usd-24.03_win64_py39.zip''], File (checksum usd_24_03_windows))],
      requested = []\<rparr>"

theorem download_usd_zip_cache_and_records_witness:
  "download_platform E_pkg ''/r/downloads'' ''windows'' usd_24_03_windows [] w_downloads
     = (Inr [[(''name'', ''usd''), (''filename'', ''usd-24.03_win64_py39.zip''),
              (''checksum'', checksum usd_24_03_windows), (''checksum_algorithm'', ''sha256''),
              (''platform'', ''windows'')]], w_downloads)
   \<and> (\<exists>ws. os_remove ''/r/downloads/usd-24.03_linux_py39.zip'' w_downloads = (Inr (), ws)
          \<and> stat (files ws) ''/r/downloads/usd-24.03_linux_py39.zip'' = None
          \<and> download_platform E_pkg ''/r/downloads'' ''linux'' usd_24_03_linux [] w_downloads
              = download_platform E_pkg ''/r/downloads'' ''linux'' usd_24_03_linux [] ws)
   \<and> (\<exists>w'. download_platform E_pkg ''/r/downloads'' ''linux'' usd_24_03_linux [] w_linux_missing
              = (Inr [[(''name'', ''usd''), (''filename'', ''usd-24.03_linux_py39.zip''),
                       (''checksum'', checksum usd_24_03_linux), (''checksum_algorithm'', ''sha256''),
                       (''platform'', ''linux'')]], w')
          \<and> stat (files w') ''/r/downloads/usd-24.03_linux_py39.zip''
              = Some (File (checksum usd_24_03_linux))
          \<and> requested w' = [url usd_24_03_linux])
   \<and> fst (download_usd_zip E_pkg ''/r/downloads'' w_downloads)
       = Inr [[(''name'', ''usd''), (''filename'', ''usd-24.03_win64_py39.zip''),
               (''checksum'', checksum usd_24_03_windows), (''checksum_algorithm'', ''sha256''),
               (''platform'', ''windows'')],
              [(''name'', ''usd''), (''filename'', ''usd-24.03_linux_py39.zip''),
               (''checksum'', checksum usd_24_03_linux), (''checksum_algorithm'', ''sha256''),
               (''platform'', ''linux'')]]
   \<and> calculate_file_checksum E_pkg (files (snd (download_usd_zip E_pkg ''/r/downloads'' w_downloads)))
        ''/r/downloads/usd-24.03_linux_py39.zip'' ''sha256'' default_chunk_size
       = Inr (checksum usd_24_03_linux)"
proof -
  let ?rw = "[(''name'', ''usd''), (''filename'', ''usd-24.03_win64_py39.zip''),
              (''checksum'', checksum usd_24_03_windows), (''checksum_algorithm'', ''sha256''),
              (''platform'', ''windows'')]"
  let ?rl = "[(''name'', ''usd''), (''filename'', ''usd-24.03_linux_py39.zip''),
              (''checksum'', checksum usd_24_03_linux), (''checksum_algorithm'', ''sha256''),
              (''platform'', ''linux'')]"
  let ?zw = "''/r/downloads/usd-24.03_win64_py39.zip''"
  let ?zl = "''/r/downloads/usd-24.03_linux_py39.zip''"
  have zw: "?zw = path_join ''/r/downloads'' (last (split_sep CHR ''/'' (url usd_24_03_windows)))"
    by code_simp
  have zl: "?zl = path_join ''/r/downloads'' (last (split_sep CHR ''/'' (url usd_24_03_linux)))"
    by code_simp
  have rw: "?rw = [(''name'', ADDON_NAME E_pkg),
                   (''filename'', last (split_sep CHR ''/'' (url usd_24_03_windows))),
                   (''checksum'', checksum usd_24_03_windows),
                   (''checksum_algorithm'', checksum_algorithm usd_24_03_windows),
                   (''platform'', ''windows'')]"
    by code_simp
  have rl: "?rl = [(''name'', ADDON_NAME E_pkg),
                   (''filename'', last (split_sep CHR ''/'' (url usd_24_03_linux))),
                   (''checksum'', checksum usd_24_03_linux),
                   (''checksum_algorithm'', checksum_algorithm usd_24_03_linux),
                   (''platform'', ''linux'')]"
    by code_simp
  have al: "checksum_algorithm usd_24_03_linux = ''sha256''" by (simp add: usd_24_03_linux_def)
  have aw: "checksum_algorithm usd_24_03_windows = ''sha256''" by (simp add: usd_24_03_windows_def)
  note hitw = download_usd_zip_cache_and_records[OF zw rw, of w_downloads "[]"]
  note stl = download_usd_zip_cache_and_records[OF zl rl, of w_downloads "[]"]
  note mis = download_usd_zip_cache_and_records[OF zl rl, of w_linux_missing "[]"]
  have e1: "path_exists (files w_downloads) ?zw" by code_simp
  have c1: "calculate_file_checksum E_pkg (files w_downloads) ?zw ''sha256'' default_chunk_size
              = Inr (checksum usd_24_03_windows)" by code_simp
  from hitw e1 c1
  have k1: "download_platform E_pkg ''/r/downloads'' ''windows'' usd_24_03_windows [] w_downloads
              = (Inr [?rw], w_downloads)"
    by (simp only: aw append_Nil)
  have e2: "path_exists (files w_downloads) ?zl" by code_simp
  have c2: "calculate_file_checksum E_pkg (files w_downloads) ?zl ''sha256'' default_chunk_size
              = Inr ''stale''" by code_simp
  have n2: "''stale'' \<noteq> checksum usd_24_03_linux" by (simp add: usd_24_03_linux_def)
  from stl
  have "\<forall>c. path_exists (files w_downloads) ?zl
              \<and> calculate_file_checksum E_pkg (files w_downloads) ?zl (checksum_algorithm usd_24_03_linux)
                   default_chunk_size = Inr c
              \<and> c \<noteq> checksum usd_24_03_linux
          \<longrightarrow> (\<exists>ws. os_remove ?zl w_downloads = (Inr (), ws)
                  \<and> stat (files ws) ?zl = None
                  \<and> requested ws = requested w_downloads
                  \<and> (\<forall>q. q \<noteq> comps ?zl \<longrightarrow> stat_c (files ws) q = stat_c (files w_downloads) q)
                  \<and> download_platform E_pkg ''/r/downloads'' ''linux'' usd_24_03_linux [] w_downloads
                      = download_platform E_pkg ''/r/downloads'' ''linux'' usd_24_03_linux [] ws)"
    by (elim conjE)
  with e2 c2 n2
  have k2: "\<exists>ws. os_remove ?zl w_downloads = (Inr (), ws)
          \<and> stat (files ws) ?zl = None
          \<and> download_platform E_pkg ''/r/downloads'' ''linux'' usd_24_03_linux [] w_downloads
              = download_platform E_pkg ''/r/downloads'' ''linux'' usd_24_03_linux [] ws"
    unfolding al by blast
  have e3: "\<not> path_exists (files w_linux_missing) ?zl" by code_simp
  have d3: "isdir (files w_linux_missing) ''/r/downloads''" by code_simp
  have v3: "valid_name (last (split_sep CHR ''/'' (url usd_24_03_linux)))" by code_simp
  have u3: "url_content E_pkg (url usd_24_03_linux) = Some (checksum usd_24_03_linux)" by code_simp
  have h3: "hashlib E_pkg (checksum_algorithm usd_24_03_linux) = Some (\<lambda>b. b)"
    by (simp add: E_pkg_def al)
  from mis
  have "\<forall>content func.
              \<not> path_exists (files w_linux_missing) ?zl \<and> isdir (files w_linux_missing) ''/r/downloads''
            \<and> valid_name (last (split_sep CHR ''/'' (url usd_24_03_linux)))
            \<and> url_content E_pkg (url usd_24_03_linux) = Some content
            \<and> hashlib E_pkg (checksum_algorithm usd_24_03_linux) = Some func
            \<and> func content = checksum usd_24_03_linux
          \<longrightarrow> (\<exists>w'. download_platform E_pkg ''/r/downloads'' ''linux'' usd_24_03_linux [] w_linux_missing
                      = (Inr ([] @ [?rl]), w'))"
    by (elim conjE)
  with e3 d3 v3 u3 h3 obtain w3 where
    r3: "download_platform E_pkg ''/r/downloads'' ''linux'' usd_24_03_linux [] w_linux_missing
           = (Inr [?rl], w3)"
    by (metis append_Nil)
  from mis
  have "\<not> path_exists (files w_linux_missing) ?zl \<longrightarrow>
            (\<forall>x w'. download_platform E_pkg ''/r/downloads'' ''linux'' usd_24_03_linux [] w_linux_missing
                       = (Inr x, w') \<longrightarrow>
                 x = [] @ [?rl]
               \<and> (\<exists>content. url_content E_pkg (url usd_24_03_linux) = Some content
                     \<and> stat (files w') ?zl = Some (File content))
               \<and> calculate_file_checksum E_pkg (files w') ?zl (checksum_algorithm usd_24_03_linux)
                    default_chunk_size = Inr (checksum usd_24_03_linux)
               \<and> requested w' = requested w_linux_missing @ [url usd_24_03_linux]
               \<and> (\<forall>q. q \<noteq> comps ?zl \<longrightarrow> stat_c (files w') q = stat_c (files w_linux_missing) q))"
    by (elim conjE)
  with e3 r3 have f3: "\<exists>content. url_content E_pkg (url usd_24_03_linux) = Some content
                     \<and> stat (files w3) ?zl = Some (File content)"
    and q3: "requested w3 = requested w_linux_missing @ [url usd_24_03_linux]"
    by blast+
  from f3 u3 have s3: "stat (files w3) ?zl = Some (File (checksum usd_24_03_linux))" by auto
  from q3 have q3': "requested w3 = [url usd_24_03_linux]" by (simp add: w_linux_missing_def)
  from r3 s3 q3'
  have k3: "\<exists>w'. download_platform E_pkg ''/r/downloads'' ''linux'' usd_24_03_linux [] w_linux_missing
              = (Inr [?rl], w')
          \<and> stat (files w') ?zl = Some (File (checksum usd_24_03_linux))
          \<and> requested w' = [url usd_24_03_linux]"
    by blast
  have ok: "\<not> isl (fst (download_usd_zip E_pkg ''/r/downloads'' w_downloads))"
    by code_simp
  then obtain infos where fi: "fst (download_usd_zip E_pkg ''/r/downloads'' w_downloads) = Inr infos"
    by (cases "fst (download_usd_zip E_pkg ''/r/downloads'' w_downloads)") auto
  then have
    run: "download_usd_zip E_pkg ''/r/downloads'' w_downloads
            = (Inr infos, snd (download_usd_zip E_pkg ''/r/downloads'' w_downloads))"
    by (simp add: prod_eq_iff)
  from hitw
  have all: "\<forall>infos w'. download_usd_zip E_pkg ''/r/downloads'' w_downloads = (Inr infos, w') \<longrightarrow>
            infos = concat (map (\<lambda>(item_name, item_info).
                      map (\<lambda>(pn, pinfo). [(''name'', ADDON_NAME E_pkg),
                                           (''filename'', last (split_sep CHR ''/'' (url pinfo))),
                                           (''checksum'', checksum pinfo),
                                           (''checksum_algorithm'', checksum_algorithm pinfo),
                                           (''platform'', pn)]) item_info) USD_SOURCES)
          \<and> (\<forall>item_name item_info pn pinfo.
                (item_name, item_info) \<in> set USD_SOURCES \<and> (pn, pinfo) \<in> set item_info \<longrightarrow>
                calculate_file_checksum E_pkg (files w')
                  (path_join ''/r/downloads'' (last (split_sep CHR ''/'' (url pinfo))))
                  (checksum_algorithm pinfo) default_chunk_size = Inr (checksum pinfo))"
    by (elim conjE)
  have recs: "concat (map (\<lambda>(item_name, item_info).
                      map (\<lambda>(pn, pinfo). [(''name'', ADDON_NAME E_pkg),
                                           (''filename'', last (split_sep CHR ''/'' (url pinfo))),
                                           (''checksum'', checksum pinfo),
                                           (''checksum_algorithm'', checksum_algorithm pinfo),
                                           (''platform'', pn)]) item_info) USD_SOURCES) = [?rw, ?rl]"
    by (simp add: USD_SOURCES_def rw rl)
  have ent: "(''24.03'', [(''windows'', usd_24_03_windows), (''linux'', usd_24_03_linux)]) \<in> set USD_SOURCES"
    "(''linux'', usd_24_03_linux) \<in> set [(''windows'', usd_24_03_windows), (''linux'', usd_24_03_linux)]"
    by (simp_all add: USD_SOURCES_def)
  note a4 = all[rule_format, OF run]
  have "infos = [?rw, ?rl]" using a4[THEN conjunct1] recs by (rule trans)
  with fi have k4: "fst (download_usd_zip E_pkg ''/r/downloads'' w_downloads) = Inr [?rw, ?rl]"
    by (simp only:)
  have "calculate_file_checksum E_pkg (files (snd (download_usd_zip E_pkg ''/r/downloads'' w_downloads)))
          (path_join ''/r/downloads'' (last (split_sep CHR ''/'' (url usd_24_03_linux))))
          (checksum_algorithm usd_24_03_linux) default_chunk_size = Inr (checksum usd_24_03_linux)"
    by (rule a4[THEN conjunct2, rule_format, OF conjI[OF ent(1) ent(2)]])
  then have k5: "calculate_file_checksum E_pkg (files (snd (download_usd_zip E_pkg ''/r/downloads'' w_downloads)))
        ?zl ''sha256'' default_chunk_size = Inr (checksum usd_24_03_linux)"
    by (simp only: zl[symmetric] al)
  from k1 k2 k3 k4 k5 show ?thesis by (intro conjI)
qed

end
